theory Spec2Isabelle
  imports Complex_Main "HOL-Library.Word" "HOL-Library.List_Lexorder" "HOL-Library.AList"
begin

section \<open>JavaScript strings and the built-ins the parser calls\<close>

text \<open>
  A JavaScript string is a sequence of 16-bit code units. Literals of the source are
  written \<open>js ''...''\<close>. The default \<open>sort()\<close> of an array of strings compares code units
  lexicographically, which is the order of \<open>16 word list\<close>.
\<close>

type_synonym jsstring = "16 word list"

definition js :: "string \<Rightarrow> jsstring" where
  "js s = map of_char s"

text \<open>
  Single code units are written in hexadecimal: \<open>0x0A\<close> line feed, \<open>0x22\<close> double quote,
  \<open>0x25\<close> percent, \<open>0x26\<close> ampersand, \<open>0x2C\<close> comma, \<open>0x3D\<close> equals, \<open>0x3F\<close>
  question mark, \<open>0x7C\<close> pipe.
\<close>

text \<open>\<open>String.prototype.trim\<close> strips WhiteSpace and LineTerminator code units.\<close>

definition isWhiteSpace :: "16 word \<Rightarrow> bool" where
  "isWhiteSpace c \<longleftrightarrow>
     c = 0x09 \<or> c = 0x0A \<or> c = 0x0B \<or> c = 0x0C \<or> c = 0x0D \<or> c = 0x20 \<or> c = 0xA0 \<or>
     c = 0x1680 \<or> (0x2000 \<le> c \<and> c \<le> 0x200A) \<or> c = 0x2028 \<or> c = 0x2029 \<or>
     c = 0x202F \<or> c = 0x205F \<or> c = 0x3000 \<or> c = 0xFEFF"

definition trim :: "jsstring \<Rightarrow> jsstring" where
  "trim s = rev (dropWhile isWhiteSpace (rev (dropWhile isWhiteSpace s)))"

definition startsWith :: "'a list \<Rightarrow> 'a list \<Rightarrow> bool" where
  "startsWith s p \<longleftrightarrow> take (length p) s = p"

definition endsWith :: "'a list \<Rightarrow> 'a list \<Rightarrow> bool" where
  "endsWith s p \<longleftrightarrow> length p \<le> length s \<and> drop (length s - length p) s = p"

text \<open>\<open>s.split(d)\<close> for a one-character separator: never empty, \<open>''.split(d) = ['']\<close>.\<close>

fun cons_first :: "'a \<Rightarrow> 'a list list \<Rightarrow> 'a list list" where
  "cons_first x [] = [[x]]"
| "cons_first x (p # ps) = (x # p) # ps"

fun js_split :: "'a \<Rightarrow> 'a list \<Rightarrow> 'a list list" where
  "js_split d [] = [[]]"
| "js_split d (x # xs) =
     (if x = d then [] # js_split d xs else cons_first x (js_split d xs))"

text \<open>Array indexing: out of range is \<open>undefined\<close>.\<close>

fun js_nth :: "'a list \<Rightarrow> nat \<Rightarrow> 'a option" where
  "js_nth [] i = None"
| "js_nth (x # xs) 0 = Some x"
| "js_nth (x # xs) (Suc i) = js_nth xs i"

text \<open>\<open>s.indexOf(c)\<close>, with \<open>None\<close> for \<open>-1\<close>.\<close>

fun indexOf :: "'a list \<Rightarrow> 'a \<Rightarrow> nat option" where
  "indexOf [] c = None"
| "indexOf (x # xs) c = (if x = c then Some 0 else map_option Suc (indexOf xs c))"

text \<open>Truthiness of an optional string: \<open>undefined\<close> and \<open>''\<close> are falsy.\<close>

fun truthy :: "jsstring option \<Rightarrow> bool" where
  "truthy None = False"
| "truthy (Some s) = (s \<noteq> [])"

text \<open>\<open>a || d\<close> for an optional string \<open>a\<close>.\<close>

fun or_else :: "jsstring option \<Rightarrow> jsstring \<Rightarrow> jsstring" where
  "or_else None d = d"
| "or_else (Some s) d = (if s = [] then d else s)"

text \<open>Decimal rendering of a non-negative integer in a template literal.\<close>

fun string_of_nat :: "nat \<Rightarrow> jsstring" where
  "string_of_nat n =
     (if n < 10 then [0x30 + of_nat n]
      else string_of_nat (n div 10) @ [0x30 + of_nat (n mod 10)])"

text \<open>
  The two objects the parser uses as dictionaries (\<open>currentProps\<close>, \<open>headers\<close>) are object
  literals with string values; own properties are kept in insertion order. An assignment
  to the key \<open>__proto__\<close> reaches the setter inherited from \<open>Object.prototype\<close>, which
  ignores a value that is not an object: no own property is created. The keys the parser
  reads are not properties of \<open>Object.prototype\<close>.
\<close>

type_synonym jsobject = "(jsstring \<times> jsstring) list"

definition obj_get :: "jsobject \<Rightarrow> jsstring \<Rightarrow> jsstring option" where
  "obj_get ob k = map_of ob k"

definition obj_set :: "jsobject \<Rightarrow> jsstring \<Rightarrow> jsstring \<Rightarrow> jsobject" where
  "obj_set ob k v = (if k = js ''__proto__'' then ob else AList.update k v ob)"

text \<open>\<open>Set.prototype.add\<close> on a set kept in insertion order.\<close>

definition set_add :: "'a list \<Rightarrow> 'a \<Rightarrow> 'a list" where
  "set_add xs x = (if x \<in> set xs then xs else xs @ [x])"

subsection \<open>The regular expressions of the metadata line\<close>

text \<open>
  \<open>info.match(/tvg-id="([^"]*)"/)\<close> and its two siblings: the leftmost position where the
  attribute name, \<open>=\<close> and an opening quote are followed by a closing quote; the capture
  is the text between the quotes. \<open>pre\<close> is the literal part up to the opening quote.
\<close>

definition dquote :: "16 word" where
  "dquote = 0x22"

definition match_here :: "jsstring \<Rightarrow> jsstring \<Rightarrow> jsstring option" where
  "match_here pre s =
     (if startsWith s pre then
        (let rest = drop (length pre) s
         in if dquote \<in> set rest then Some (takeWhile (\<lambda>c. c \<noteq> dquote) rest) else None)
      else None)"

fun regex_match :: "jsstring \<Rightarrow> jsstring \<Rightarrow> jsstring option" where
  "regex_match pre [] = match_here pre []"
| "regex_match pre (c # cs) =
     (case match_here pre (c # cs) of
        Some cap \<Rightarrow> Some cap
      | None \<Rightarrow> regex_match pre cs)"

subsection \<open>decodeURIComponent\<close>

text \<open>
  The ECMAScript \<open>Decode\<close> operation with an empty reserved set: a code unit other than
  \<open>%\<close> is copied; \<open>%XX\<close> is one octet; an octet below 0x80 is that character; a lead octet
  announces 2 to 4 octets of UTF-8, each continuation written \<open>%XX\<close> with top bits 10; the
  octets must be a valid UTF-8 encoding (no overlong form, no surrogate, at most 0x10FFFF).
  Anything else throws \<open>URIError\<close>.
\<close>

datatype js_error = URIError

definition hexval :: "16 word \<Rightarrow> nat option" where
  "hexval c =
     (if 0x30 \<le> c \<and> c \<le> 0x39 then Some (unat c - 0x30)
      else if 0x41 \<le> c \<and> c \<le> 0x46 then Some (unat c - 0x41 + 10)
      else if 0x61 \<le> c \<and> c \<le> 0x66 then Some (unat c - 0x61 + 10)
      else None)"

definition pct_octet :: "jsstring \<Rightarrow> nat option" where
  "pct_octet s =
     (case s of
        p # h1 # h2 # _ \<Rightarrow>
          (if p = 0x25 then
             (case (hexval h1, hexval h2) of
                (Some a, Some b) \<Rightarrow> Some (16 * a + b)
              | _ \<Rightarrow> None)
           else None)
      | _ \<Rightarrow> None)"

fun continuation_octets :: "nat \<Rightarrow> jsstring \<Rightarrow> nat list option" where
  "continuation_octets 0 s = Some []"
| "continuation_octets (Suc n) s =
     (case pct_octet s of
        Some b \<Rightarrow>
          (if 128 \<le> b \<and> b < 192 then map_option ((#) b) (continuation_octets n (drop 3 s))
           else None)
      | None \<Rightarrow> None)"

definition leading_ones :: "nat \<Rightarrow> nat" where
  "leading_ones b =
     (if b < 128 then 0 else if b < 192 then 1 else if b < 224 then 2
      else if b < 240 then 3 else if b < 248 then 4 else 5)"

definition utf8_value :: "nat \<Rightarrow> nat list \<Rightarrow> nat option" where
  "utf8_value b octs =
     (case octs of
        [c1] \<Rightarrow>
          (let v = (b - 192) * 64 + (c1 - 128)
           in if 128 \<le> v then Some v else None)
      | [c1, c2] \<Rightarrow>
          (let v = (b - 224) * 4096 + (c1 - 128) * 64 + (c2 - 128)
           in if 2048 \<le> v \<and> \<not> (55296 \<le> v \<and> v \<le> 57343) then Some v else None)
      | [c1, c2, c3] \<Rightarrow>
          (let v = (b - 240) * 262144 + (c1 - 128) * 4096 + (c2 - 128) * 64 + (c3 - 128)
           in if 65536 \<le> v \<and> v \<le> 1114111 then Some v else None)
      | _ \<Rightarrow> None)"

definition utf16_units :: "nat \<Rightarrow> jsstring" where
  "utf16_units v =
     (if v < 65536 then [of_nat v]
      else [of_nat (55296 + (v - 65536) div 1024), of_nat (56320 + (v - 65536) mod 1024)])"

fun decodeURIComponent :: "jsstring \<Rightarrow> js_error + jsstring" where
  "decodeURIComponent [] = Inr []"
| "decodeURIComponent (c # cs) =
     (if c \<noteq> 0x25 then
        (case decodeURIComponent cs of Inl e \<Rightarrow> Inl e | Inr r \<Rightarrow> Inr (c # r))
      else
        (case pct_octet (c # cs) of
           None \<Rightarrow> Inl URIError
         | Some b \<Rightarrow>
             (if b < 128 then
                (case decodeURIComponent (drop 2 cs) of
                   Inl e \<Rightarrow> Inl e
                 | Inr r \<Rightarrow> Inr (of_nat b # r))
              else if leading_ones b = 1 \<or> 4 < leading_ones b then Inl URIError
              else
                (case continuation_octets (leading_ones b - 1) (drop 2 cs) of
                   None \<Rightarrow> Inl URIError
                 | Some octs \<Rightarrow>
                     (case utf8_value b octs of
                        None \<Rightarrow> Inl URIError
                      | Some v \<Rightarrow>
                          (case decodeURIComponent (drop (2 + 3 * (leading_ones b - 1)) cs) of
                             Inl e \<Rightarrow> Inl e
                           | Inr r \<Rightarrow> Inr (utf16_units v @ r)))))))"

declare string_of_nat.simps [simp del]

section \<open>The data model (types.ts)\<close>

record DrmConfig =
  drm_type :: jsstring
  licenseUrl :: jsstring
  headers :: "jsobject option"

record Channel =
  ch_id :: jsstring
  tvgId :: "jsstring option"
  name :: jsstring
  logo :: "jsstring option"
  group :: "jsstring option"
  url :: jsstring
  drm :: "DrmConfig option"
  userAgent :: "jsstring option"
  referrer :: "jsstring option"

record Category =
  cat_id :: jsstring
  cat_name :: jsstring

text \<open>\<open>Partial<Channel>\<close>, with the four fields the parser fills in; \<open>{}\<close> is \<open>no_channel\<close>.\<close>

record PartialChannel =
  p_tvgId :: "jsstring option"
  p_name :: "jsstring option"
  p_logo :: "jsstring option"
  p_group :: "jsstring option"

definition no_channel :: PartialChannel where
  "no_channel = \<lparr>p_tvgId = None, p_name = None, p_logo = None, p_group = None\<rparr>"

section \<open>parseM3U\<close>

text \<open>The variables the \<open>forEach\<close> callback closes over.\<close>

record pstate =
  channels :: "Channel list"
  categoriesSet :: "jsstring list"
  currentChannel :: PartialChannel
  currentProps :: jsobject

record parsed =
  res_channels :: "Channel list"
  res_categories :: "Category list"

text \<open>
  The inner \<open>forEach\<close> over \<open>parts[1].split('&')\<close>: \<open>const [k, v] = h.split('=')\<close>, then
  \<open>if (k && v) headers[k] = decodeURIComponent(v)\<close>.
\<close>

fun headers_forEach :: "jsstring list \<Rightarrow> jsobject \<Rightarrow> js_error + jsobject" where
  "headers_forEach [] hdrs = Inr hdrs"
| "headers_forEach (h # hs) hdrs =
     (let kv = js_split 0x3D h; k = js_nth kv 0; v = js_nth kv 1
      in if truthy k \<and> truthy v then
           (case decodeURIComponent (or_else v []) of
              Inl e \<Rightarrow> Inl e
            | Inr d \<Rightarrow> headers_forEach hs (obj_set hdrs (or_else k []) d))
         else headers_forEach hs hdrs)"

text \<open>The block "Process DRM props if present" of the URL branch.\<close>

definition processDrm :: "jsobject \<Rightarrow> js_error + DrmConfig option" where
  "processDrm props =
     (let licenseType = obj_get props (js ''inputstream.adaptive.license_type'');
          licenseKey = obj_get props (js ''inputstream.adaptive.license_key'')
      in if truthy licenseType \<and> truthy licenseKey then
           (let key = or_else licenseKey []
            in if 0x7C \<in> set key then
                 (let parts = js_split 0x7C key
                  in if truthy (js_nth parts 1) then
                       (case headers_forEach (js_split 0x26 (or_else (js_nth parts 1) [])) [] of
                          Inl e \<Rightarrow> Inl e
                        | Inr hdrs \<Rightarrow>
                            Inr (Some \<lparr>drm_type = or_else licenseType [],
                                       licenseUrl = hd parts, headers = Some hdrs\<rparr>))
                     else Inr (Some \<lparr>drm_type = or_else licenseType [],
                                     licenseUrl = hd parts, headers = Some []\<rparr>))
               else Inr (Some \<lparr>drm_type = or_else licenseType [],
                               licenseUrl = key, headers = Some []\<rparr>))
         else Inr None)"

text \<open>The object literal assigned to \<open>currentChannel\<close> on a metadata line, from \<open>info\<close>.\<close>

definition extinf_channel :: "jsstring \<Rightarrow> PartialChannel" where
  "extinf_channel info =
     (let tvgIdMatch = regex_match (js ''tvg-id='' @ [dquote]) info;
          logoMatch = regex_match (js ''tvg-logo='' @ [dquote]) info;
          groupMatch = regex_match (js ''group-title='' @ [dquote]) info;
          nameParts = js_split 0x2C info;
          nm = trim (last nameParts)
      in \<lparr>p_tvgId = tvgIdMatch,
          p_name = Some (or_else (Some nm) (js ''Unknown Channel'')),
          p_logo = logoMatch,
          p_group = Some (case groupMatch of Some g \<Rightarrow> g | None \<Rightarrow> js ''Uncategorized'')\<rparr>)"

text \<open>
  The object pushed on a URL line. \<open>now index\<close> is what \<open>Date.now()\<close> returns while the
  line at \<open>index\<close> is processed.
\<close>

definition new_channel ::
  "(nat \<Rightarrow> nat) \<Rightarrow> nat \<Rightarrow> jsstring \<Rightarrow> DrmConfig option \<Rightarrow> pstate \<Rightarrow> Channel" where
  "new_channel now index trimmed d st =
     (let ua = obj_get (currentProps st) (js ''http-user-agent'');
          rf = obj_get (currentProps st) (js ''http-referrer'');
          cc = currentChannel st;
          channelName =
            or_else (p_name cc) (js ''Channel '' @ string_of_nat (length (channels st) + 1))
      in \<lparr>ch_id = js ''ch-'' @ string_of_nat (now index) @ js ''-'' @ string_of_nat index,
          tvgId = p_tvgId cc,
          name = channelName,
          logo = p_logo cc,
          group = Some (or_else (p_group cc) (js ''Uncategorized'')),
          url = trimmed,
          drm = d,
          userAgent = ua,
          referrer = rf\<rparr>)"

text \<open>The body of \<open>lines.forEach((line, index) => ...)\<close>.\<close>

definition processLine :: "(nat \<Rightarrow> nat) \<Rightarrow> nat \<Rightarrow> jsstring \<Rightarrow> pstate \<Rightarrow> js_error + pstate" where
  "processLine now index line st =
     (let trimmed = trim line
      in if trimmed = [] then Inr st
         else if startsWith trimmed (js ''#KODIPROP:'') then
           (let prop = drop 10 trimmed
            in case indexOf prop 0x3D of
                 Some splitIndex \<Rightarrow>
                   (let key = trim (take splitIndex prop);
                        val = trim (drop (splitIndex + 1) prop)
                    in Inr (st\<lparr>currentProps := obj_set (currentProps st) key val\<rparr>))
               | None \<Rightarrow> Inr st)
         else if startsWith trimmed (js ''#EXTINF:'') then
           (let cc = extinf_channel (drop 8 trimmed)
            in Inr (st\<lparr>currentChannel := cc,
                       categoriesSet :=
                         (if truthy (p_group cc)
                          then set_add (categoriesSet st) (or_else (p_group cc) [])
                          else categoriesSet st)\<rparr>))
         else if \<not> startsWith trimmed (js ''#'') then
           (case processDrm (currentProps st) of
              Inl e \<Rightarrow> Inl e
            | Inr d \<Rightarrow>
                Inr \<lparr>channels = channels st @ [new_channel now index trimmed d st],
                     categoriesSet =
                       set_add (categoriesSet st)
                         (or_else (p_group (currentChannel st)) (js ''Uncategorized'')),
                     currentChannel = no_channel,
                     currentProps = []\<rparr>)
         else Inr st)"

fun forEach_lines :: "(nat \<Rightarrow> nat) \<Rightarrow> nat \<Rightarrow> jsstring list \<Rightarrow> pstate \<Rightarrow> js_error + pstate" where
  "forEach_lines now index [] st = Inr st"
| "forEach_lines now index (l # ls) st =
     (case processLine now index l st of
        Inl e \<Rightarrow> Inl e
      | Inr st' \<Rightarrow> forEach_lines now (Suc index) ls st')"

definition init_pstate :: pstate where
  "init_pstate = \<lparr>channels = [], categoriesSet = [], currentChannel = no_channel,
                   currentProps = []\<rparr>"

text \<open>\<open>Array.from(categoriesSet).sort().map((cat, idx) => ...)\<close>, then the \<open>unshift\<close>.\<close>

definition sortedCategories :: "jsstring list \<Rightarrow> Category list" where
  "sortedCategories cats =
     \<lparr>cat_id = js ''all'', cat_name = js ''All Channels''\<rparr> #
     map (\<lambda>(idx, cat). \<lparr>cat_id = js ''cat-'' @ string_of_nat idx, cat_name = cat\<rparr>)
       (enumerate 0 (sort cats))"

definition parseM3U :: "(nat \<Rightarrow> nat) \<Rightarrow> jsstring \<Rightarrow> js_error + parsed" where
  "parseM3U now content =
     (case forEach_lines now 0 (js_split 0x0A content) init_pstate of
        Inl e \<Rightarrow> Inl e
      | Inr st \<Rightarrow>
          Inr \<lparr>res_channels = channels st,
               res_categories = sortedCategories (categoriesSet st)\<rparr>)"

section \<open>Vocabulary for statements about the parser\<close>

text \<open>Which branch of the callback a line takes.\<close>

definition is_kodiprop :: "jsstring \<Rightarrow> bool" where
  "is_kodiprop line \<longleftrightarrow> startsWith (trim line) (js ''#KODIPROP:'')"

definition is_extinf :: "jsstring \<Rightarrow> bool" where
  "is_extinf line \<longleftrightarrow> startsWith (trim line) (js ''#EXTINF:'')"

definition is_url :: "jsstring \<Rightarrow> bool" where
  "is_url line \<longleftrightarrow> trim line \<noteq> [] \<and> \<not> startsWith (trim line) (js ''#'')"

definition url_count :: "jsstring list \<Rightarrow> nat" where
  "url_count ls = length (filter is_url ls)"

text \<open>The non-empty group names of the metadata lines among \<open>ls\<close>.\<close>

definition extinf_groups :: "jsstring list \<Rightarrow> jsstring set" where
  "extinf_groups ls =
     {g. \<exists>l \<in> set ls. is_extinf l \<and> g \<noteq> [] \<and> p_group (extinf_channel (drop 8 (trim l))) = Some g}"

text \<open>The text after the final comma of a metadata line, trimmed.\<close>

definition extinf_name :: "jsstring \<Rightarrow> jsstring" where
  "extinf_name line = trim (last (js_split 0x2C (drop 8 (trim line))))"

text \<open>The group names of a list of channels.\<close>

definition channel_groups :: "Channel list \<Rightarrow> jsstring set" where
  "channel_groups cs = {g. \<exists>c \<in> set cs. group c = Some g}"

text \<open>
  The second of the pipe-separated fields of a license key (empty when there is none),
  and the name and raw value of one \<open>&\<close>-separated piece of it when both are non-empty.
\<close>

definition second_field :: "jsstring \<Rightarrow> jsstring" where
  "second_field key = or_else (js_nth (js_split 0x7C key) 1) []"

definition header_pair :: "jsstring \<Rightarrow> (jsstring \<times> jsstring) option" where
  "header_pair h =
     (case js_split 0x3D h of
        k # v # _ \<Rightarrow> if k \<noteq> [] \<and> v \<noteq> [] then Some (k, v) else None
      | _ \<Rightarrow> None)"

definition header_pairs :: "jsstring \<Rightarrow> (jsstring \<times> jsstring) list" where
  "header_pairs field = List.map_filter header_pair (js_split 0x26 field)"

text \<open>
  The reading of the license key in which it is split at its first pipe only: everything
  after that pipe. Used to compare with what the parser does.
\<close>

definition after_first_pipe :: "jsstring \<Rightarrow> jsstring" where
  "after_first_pipe key = drop 1 (dropWhile (\<lambda>c. c \<noteq> 0x7C) key)"

text \<open>A clock that stands still, for the examples.\<close>

definition fixed_clock :: "nat \<Rightarrow> nat" where
  "fixed_clock index = 0"

section \<open>VideoPlayer: backend selection\<close>

text \<open>
  What the setup effect asks of the environment: \<open>mpegts.getFeatureList().mseLivePlayback\<close>,
  \<open>Hls.isSupported()\<close> and the string \<open>video.canPlayType('application/vnd.apple.mpegurl')\<close>
  (empty, \<open>maybe\<close> or \<open>probably\<close>).
\<close>

record env =
  mseLivePlayback :: bool
  hlsSupported :: bool
  canPlayType_mpegurl :: string

datatype protocol = DASH | MPEG_TS_FLV | HLS | NATIVE

text \<open>
  \<open>toLowerCase\<close> on the letters A to Z. The four tests below look for suffixes made of
  \<open>.\<close>, digits and the letters d, f, l, m, p, s, t, u, v; no other code unit has one of
  these in its lower-case mapping, so the tests do not depend on the rest of the mapping.
\<close>

definition toLowerCase :: "jsstring \<Rightarrow> jsstring" where
  "toLowerCase s = map (\<lambda>c. if 0x41 \<le> c \<and> c \<le> 0x5A then c + 0x20 else c) s"

definition cleanUrl :: "jsstring \<Rightarrow> jsstring" where
  "cleanUrl channel_url = toLowerCase (hd (js_split 0x3F (trim channel_url)))"

definition isDash :: "jsstring \<Rightarrow> bool" where
  "isDash channel_url = endsWith (cleanUrl channel_url) (js ''.mpd'')"

definition isFlv :: "jsstring \<Rightarrow> bool" where
  "isFlv channel_url = endsWith (cleanUrl channel_url) (js ''.flv'')"

definition isTs :: "jsstring \<Rightarrow> bool" where
  "isTs channel_url = endsWith (cleanUrl channel_url) (js ''.ts'')"

definition isM3u8 :: "jsstring \<Rightarrow> bool" where
  "isM3u8 channel_url = endsWith (cleanUrl channel_url) (js ''.m3u8'')"

text \<open>The branch of the \<open>if\<close> / \<open>else if\<close> chain of the setup effect that is taken.\<close>

definition classify :: "jsstring \<Rightarrow> env \<Rightarrow> protocol" where
  "classify channel_url e =
     (if isDash channel_url then DASH
      else if (isFlv channel_url \<or> isTs channel_url) \<and> mseLivePlayback e then MPEG_TS_FLV
      else if hlsSupported e \<and>
              (isM3u8 channel_url \<or>
               (\<not> isDash channel_url \<and> \<not> isFlv channel_url \<and> \<not> isTs channel_url \<and>
                canPlayType_mpegurl e = [])) then HLS
      else NATIVE)"

section \<open>VideoPlayer: buffer health\<close>

datatype health = good | fair | poor | buffering | offline

record NetworkMetrics =
  status :: health
  bufferLead :: real
  color :: string

text \<open>
  JavaScript numbers are IEEE 754 doubles. A finite double is a real number, and the
  difference of two doubles is their exact difference rounded to the nearest double, ties
  to even. A double has 53 significant bits: for \<open>2 ^ e \<le> a < 2 ^ (e + 1)\<close> the doubles
  around \<open>a\<close> are the multiples of \<open>ulp e = 2 ^ (e - 52)\<close>, and below \<open>2 ^ (- 1022)\<close>
  the spacing stays that of \<open>e = - 1022\<close> (the subnormals). \<open>binade\<close> finds \<open>e\<close> by a
  bounded search that covers every exponent of a double. A result of magnitude
  \<open>2 ^ 1024\<close> or more is \<open>Infinity\<close> in JavaScript and has no counterpart here.
\<close>

fun binade :: "nat \<Rightarrow> real \<Rightarrow> int" where
  "binade fuel a =
     (if fuel = 0 then 0
      else if 2 \<le> a then binade (fuel - 1) (a / 2) + 1
      else if a < 1 then binade (fuel - 1) (2 * a) - 1
      else 0)"

declare binade.simps [simp del]

definition ulp :: "int \<Rightarrow> real" where
  "ulp e = (if 52 \<le> e then 2 ^ nat (e - 52) else 1 / 2 ^ nat (52 - e))"

definition round_even :: "real \<Rightarrow> int" where
  "round_even y =
     (let f = \<lfloor>y\<rfloor>; r = y - of_int f
      in if r < 1 / 2 then f else if 1 / 2 < r then f + 1 else if even f then f else f + 1)"

definition round_double :: "real \<Rightarrow> real" where
  "round_double x =
     (if x = 0 then 0
      else (let u = ulp (max (binade 1100 \<bar>x\<bar>) (- 1022))
            in u * of_int (round_even (x / u))))"

text \<open>\<open>a - b\<close> on two JavaScript numbers.\<close>

definition js_minus :: "real \<Rightarrow> real \<Rightarrow> real" where
  "js_minus a b = round_double (a - b)"

text \<open>
  What \<open>checkHealth\<close> reads from the media element: whether \<open>video.error\<close> is set, the
  ready state, the current time and the buffered ranges as pairs of start and end.
\<close>

record video =
  video_error :: bool
  readyState :: nat
  currentTime :: real
  buffered :: "(real \<times> real) list"

text \<open>The \<open>for\<close> loop with its \<open>break\<close>; \<open>bufferEnd\<close> starts at 0.\<close>

fun bufferEnd :: "real \<Rightarrow> (real \<times> real) list \<Rightarrow> real" where
  "bufferEnd t [] = 0"
| "bufferEnd t ((s, e) # ranges) = (if s \<le> t \<and> e \<ge> t then e else bufferEnd t ranges)"

text \<open>One run of \<open>checkHealth\<close>: the new value of \<open>metrics\<close>.\<close>

definition checkHealth :: "video option \<Rightarrow> bool \<Rightarrow> NetworkMetrics \<Rightarrow> NetworkMetrics" where
  "checkHealth videoRef removing metrics =
     (case videoRef of
        None \<Rightarrow> metrics
      | Some v \<Rightarrow>
          (if video_error v \<or> removing then
             \<lparr>status = offline, bufferLead = 0, color = ''text-red-500''\<rparr>
           else if readyState v < 3 then
             \<lparr>status = buffering, bufferLead = 0, color = ''text-yellow-400''\<rparr>
           else
             (let lead = max 0 (js_minus (bufferEnd (currentTime v) (buffered v)) (currentTime v))
              in if lead < 2 then \<lparr>status = poor, bufferLead = lead, color = ''text-red-400''\<rparr>
                 else if lead < 5 then
                   \<lparr>status = fair, bufferLead = lead, color = ''text-yellow-400''\<rparr>
                 else \<lparr>status = good, bufferLead = lead, color = ''text-green-400''\<rparr>)))"

section \<open>VideoPlayer: errors, the removal timer and play rejections\<close>

text \<open>The error classes of hls.js and of mpegts.js.\<close>

datatype hls_error_type = NETWORK_ERROR | MEDIA_ERROR | KEY_SYSTEM_ERROR | MUX_ERROR | OTHER_ERROR

datatype mpegts_error_type = MPEGTS_NETWORK_ERROR | MPEGTS_MEDIA_ERROR | MPEGTS_OTHER_ERROR

text \<open>
  The calls that leave the component, in the order they are made. \<open>DashDestroy\<close> stands
  for \<open>destroy()\<close> of the DASH player, or \<open>reset()\<close> where it has no \<open>destroy\<close>.
\<close>

datatype action =
    HlsStartLoad
  | HlsRecoverMediaError
  | HlsDestroy
  | DashDestroy
  | MpegtsDestroy
  | VideoRemoveSrc
  | VideoLoad
  | ConsoleLog string
  | ConsoleWarn string
  | ConsoleError string
  | OnChannelError jsstring

text \<open>
  The state of a mounted player: the channel of the props, the backend the setup effect
  chose, the React state \<open>error\<close>, \<open>isRemoving\<close>, \<open>isPlaying\<close>, whether each ref holds an
  adapter, and the pending \<open>setTimeout\<close> of the removal effect as the milliseconds left
  before its callback runs.
\<close>

record player =
  channel_id :: jsstring
  backend :: protocol
  error :: "string option"
  isRemoving :: bool
  isPlaying :: bool
  videoRef :: bool
  hlsRef :: bool
  dashRef :: bool
  mpegtsRef :: bool
  timer :: "nat option"
  trace :: "action list"

definition emit :: "action list \<Rightarrow> player \<Rightarrow> player" where
  "emit as s = s\<lparr>trace := trace s @ as\<rparr>"

definition destroyPlayers :: "player \<Rightarrow> player" where
  "destroyPlayers s =
     (let s1 = (if hlsRef s then emit [HlsDestroy] (s\<lparr>hlsRef := False\<rparr>) else s);
          s2 = (if dashRef s1 then emit [DashDestroy] (s1\<lparr>dashRef := False\<rparr>) else s1);
          s3 = (if mpegtsRef s2 then emit [MpegtsDestroy] (s2\<lparr>mpegtsRef := False\<rparr>) else s2)
      in if videoRef s3 then emit [VideoRemoveSrc, VideoLoad] s3 else s3)"

text \<open>
  The effect with dependencies \<open>[isRemoving, channel.id, onChannelError]\<close>, run after a
  render in which \<open>isRemoving\<close> differs from its value \<open>was\<close> at the previous render: the
  cleanup clears the timer, and a timer of 2500 ms is set when \<open>isRemoving\<close> holds.
\<close>

definition removing_effect :: "bool \<Rightarrow> player \<Rightarrow> player" where
  "removing_effect was s =
     (if isRemoving s = was then s
      else s\<lparr>timer := (if isRemoving s then Some 2500 else None)\<rparr>)"

definition handleFatalError :: "string \<Rightarrow> player \<Rightarrow> player" where
  "handleFatalError msg s =
     removing_effect (isRemoving s)
       (emit [ConsoleWarn (''Channel Fatal Error: '' @ msg)]
          (s\<lparr>error := Some msg, isRemoving := True\<rparr>))"

text \<open>The handlers the four branches of the setup effect register.\<close>

definition dash_on_error :: "player \<Rightarrow> player" where
  "dash_on_error s = handleFatalError ''DASH Error'' (emit [ConsoleError ''DASH Error''] s)"

definition mpegts_on_error :: "mpegts_error_type \<Rightarrow> player \<Rightarrow> player" where
  "mpegts_on_error ty s =
     (let s1 = emit [ConsoleError ''MPEGTS Error''] s
      in if ty = MPEGTS_NETWORK_ERROR then handleFatalError ''Network Error'' s1 else s1)"

definition hls_on_error :: "bool \<Rightarrow> hls_error_type \<Rightarrow> player \<Rightarrow> player" where
  "hls_on_error fatal ty s =
     (if fatal then
        (case ty of
           NETWORK_ERROR \<Rightarrow>
             emit [ConsoleLog ''fatal network error encountered, trying to recover'',
                   HlsStartLoad] s
         | MEDIA_ERROR \<Rightarrow>
             emit [ConsoleLog ''fatal media error encountered, trying to recover'',
                   HlsRecoverMediaError] s
         | _ \<Rightarrow> handleFatalError ''Stream Connection Failed'' (destroyPlayers s))
      else s)"

definition video_onerror :: "player \<Rightarrow> player" where
  "video_onerror s = handleFatalError ''Format not supported or offline'' s"

text \<open>The \<open>catch\<close> of \<open>safePlay\<close>, on the \<open>name\<close> of the rejection.\<close>

definition safePlay_catch :: "string \<Rightarrow> player \<Rightarrow> player" where
  "safePlay_catch nm s =
     (if nm = ''AbortError'' then s
      else if nm = ''NotAllowedError'' then
        emit [ConsoleWarn ''Auto-play prevented by browser policy''] (s\<lparr>isPlaying := False\<rparr>)
      else emit [ConsoleError ''Auto-play failed''] s)"

text \<open>The \<open>catch\<close> on the promise of the mpegts player's \<open>play()\<close>.\<close>

definition mpegts_play_catch :: "string \<Rightarrow> player \<Rightarrow> player" where
  "mpegts_play_catch nm s =
     (if nm = ''AbortError'' then s else emit [ConsoleError ''Auto-play failed''] s)"

text \<open>The timer of the removal effect after \<open>n\<close> more milliseconds.\<close>

definition elapse :: "nat \<Rightarrow> player \<Rightarrow> player" where
  "elapse n s =
     (case timer s of
        None \<Rightarrow> s
      | Some d \<Rightarrow>
          (if d \<le> n then emit [OnChannelError (channel_id s)] (s\<lparr>timer := None\<rparr>)
           else s\<lparr>timer := Some (d - n)\<rparr>))"

text \<open>
  What a mounted player on one channel receives: the error events of the adapter its
  backend attached, the rejection of the play request made at setup, and the passing of
  time. An event reaches the handler that the branch of the backend registered; the DASH
  branch makes no play request of its own (\<open>initialize(video, url, true)\<close>) and registers
  no \<open>catch\<close>.
\<close>

datatype event =
    DashError
  | MpegtsError mpegts_error_type
  | HlsError bool hls_error_type
  | VideoError
  | PlayRejected string
  | Elapse nat

fun step :: "event \<Rightarrow> player \<Rightarrow> player" where
  "step DashError s = (if backend s = DASH then dash_on_error s else s)"
| "step (MpegtsError ty) s = (if backend s = MPEG_TS_FLV then mpegts_on_error ty s else s)"
| "step (HlsError fatal ty) s = (if backend s = HLS then hls_on_error fatal ty s else s)"
| "step VideoError s = (if backend s = NATIVE then video_onerror s else s)"
| "step (PlayRejected nm) s =
     (case backend s of
        DASH \<Rightarrow> s
      | MPEG_TS_FLV \<Rightarrow> mpegts_play_catch nm s
      | HLS \<Rightarrow> safePlay_catch nm s
      | NATIVE \<Rightarrow> safePlay_catch nm s)"
| "step (Elapse n) s = elapse n s"

fun run :: "event list \<Rightarrow> player \<Rightarrow> player" where
  "run [] s = s"
| "run (ev # evs) s = run evs (step ev s)"

text \<open>
  The player once the setup effect has run for a channel without throwing: state reset,
  one adapter attached in the ref of the chosen branch.
\<close>

definition session :: "jsstring \<Rightarrow> jsstring \<Rightarrow> env \<Rightarrow> bool \<Rightarrow> player" where
  "session cid channel_url e playing =
     (let b = classify channel_url e
      in \<lparr>channel_id = cid, backend = b, error = None, isRemoving = False,
          isPlaying = playing, videoRef = True,
          hlsRef = (b = HLS), dashRef = (b = DASH), mpegtsRef = (b = MPEG_TS_FLV),
          timer = None, trace = []\<rparr>)"

text \<open>The channel identifiers \<open>onChannelError\<close> was called with, and the time passed.\<close>

fun callbacks :: "action list \<Rightarrow> jsstring list" where
  "callbacks [] = []"
| "callbacks (OnChannelError c # as) = c # callbacks as"
| "callbacks (a # as) = callbacks as"

fun elapsed :: "event list \<Rightarrow> nat" where
  "elapsed [] = 0"
| "elapsed (Elapse n # evs) = n + elapsed evs"
| "elapsed (ev # evs) = elapsed evs"

section \<open>Concrete inputs used by the examples\<close>

definition demo_env :: env where
  "demo_env = \<lparr>mseLivePlayback = True, hlsSupported = True, canPlayType_mpegurl = []\<rparr>"

definition dash_session :: player where
  "dash_session = session (js ''ch-1'') (js ''https://h/live.mpd'') demo_env True"

definition hls_session :: player where
  "hls_session = session (js ''ch-2'') (js ''https://h/live.m3u8'') demo_env True"

definition mpegts_session :: player where
  "mpegts_session = session (js ''ch-3'') (js ''https://h/live.ts'') demo_env True"

definition demo_video :: video where
  "demo_video = \<lparr>video_error = False, readyState = 4, currentTime = 12,
                  buffered = [(0, 3), (10, 13.5)]\<rparr>"

text \<open>
  The doubles nearest to 0.3 and to 5.3 as position and buffered end: their exact
  difference is below 5, and the difference of doubles is 5.
\<close>

definition edge_video :: video where
  "edge_video =
     \<lparr>video_error = False, readyState = 4,
      currentTime = 5404319552844595 / 18014398509481984,
      buffered = [(0, 5967269506265907 / 1125899906842624)]\<rparr>"

definition demo_metrics :: NetworkMetrics where
  "demo_metrics = \<lparr>status = buffering, bufferLead = 0, color = ''text-yellow-400''\<rparr>"


text \<open>A metadata line that no URL line completes.\<close>

definition orphan_playlist :: jsstring where
  "orphan_playlist = js ''#EXTINF:-1 group-title='' @ [dquote] @ js ''News'' @ [dquote] @ js '',News One''"

text \<open>
  A metadata line with nothing after its comma, a property line, a URL line, a comment
  and a URL line with no metadata.
\<close>

definition unnamed_playlist :: jsstring where
  "unnamed_playlist =
     js ''#EXTINF:-1,\<newline>#KODIPROP:http-user-agent=UA\<newline>http://a/1\<newline># note\<newline>http://a/2''"

text \<open>
  Two property lines with a license type and a license key, a URL line, a metadata line
  and a second URL line.
\<close>

definition drm_lines :: "jsstring list" where
  "drm_lines =
     [js ''#KODIPROP:inputstream.adaptive.license_type=com.widevine.alpha'',
      js ''#KODIPROP:inputstream.adaptive.license_key=https://lic.example/x|Header1=aaa&Header2=b%20b'']"

definition drm_playlist :: jsstring where
  "drm_playlist =
     js ''#KODIPROP:inputstream.adaptive.license_type=com.widevine.alpha\<newline>#KODIPROP:inputstream.adaptive.license_key=https://lic.example/x|Header1=aaa&Header2=b%20b\<newline>http://a/1.mpd\<newline>#EXTINF:-1,Two\<newline>http://a/2.mpd''"

definition drm_pending :: pstate where
  "drm_pending =
     \<lparr>channels = [], categoriesSet = [], currentChannel = no_channel,
      currentProps =
        [(js ''inputstream.adaptive.license_type'', js ''com.widevine.alpha''),
         (js ''inputstream.adaptive.license_key'',
          js ''https://lic.example/x|Header1=aaa&Header2=b%20b'')]\<rparr>"

definition drm_result :: parsed where
  "drm_result =
     \<lparr>res_channels =
        [\<lparr>ch_id = js ''ch-0-2'', tvgId = None, name = js ''Channel 1'', logo = None,
          group = Some (js ''Uncategorized''), url = js ''http://a/1.mpd'',
          drm = Some \<lparr>drm_type = js ''com.widevine.alpha'',
                      licenseUrl = js ''https://lic.example/x'',
                      headers = Some [(js ''Header1'', js ''aaa''), (js ''Header2'', js ''b b'')]\<rparr>,
          userAgent = None, referrer = None\<rparr>,
         \<lparr>ch_id = js ''ch-0-4'', tvgId = None, name = js ''Two'', logo = None,
          group = Some (js ''Uncategorized''), url = js ''http://a/2.mpd'',
          drm = None, userAgent = None, referrer = None\<rparr>],
      res_categories =
        [\<lparr>cat_id = js ''all'', cat_name = js ''All Channels''\<rparr>,
         \<lparr>cat_id = js ''cat-0'', cat_name = js ''Uncategorized''\<rparr>]\<rparr>"

definition unnamed_result :: parsed where
  "unnamed_result =
     \<lparr>res_channels =
        [\<lparr>ch_id = js ''ch-0-2'', tvgId = None, name = js ''Unknown Channel'', logo = None,
          group = Some (js ''Uncategorized''), url = js ''http://a/1'',
          drm = None, userAgent = Some (js ''UA''), referrer = None\<rparr>,
         \<lparr>ch_id = js ''ch-0-4'', tvgId = None, name = js ''Channel 2'', logo = None,
          group = Some (js ''Uncategorized''), url = js ''http://a/2'',
          drm = None, userAgent = None, referrer = None\<rparr>],
      res_categories =
        [\<lparr>cat_id = js ''all'', cat_name = js ''All Channels''\<rparr>,
         \<lparr>cat_id = js ''cat-0'', cat_name = js ''Uncategorized''\<rparr>]\<rparr>"

text \<open>License keys with three pipe-separated fields.\<close>

definition two_pipe_playlist :: jsstring where
  "two_pipe_playlist =
     js ''#KODIPROP:inputstream.adaptive.license_type=w\<newline>#KODIPROP:inputstream.adaptive.license_key=u|A=1|B=2\<newline>http://a/1.mpd''"

definition three_field_playlist :: jsstring where
  "three_field_playlist =
     js ''#KODIPROP:inputstream.adaptive.license_type=w\<newline>#KODIPROP:inputstream.adaptive.license_key=u|A=1|B=2&C=3\<newline>http://a/1.mpd''"


section \<open>Properties of the player\<close>

subsection \<open>Backend selection\<close>

lemma endsWith_last: "endsWith s p \<Longrightarrow> p \<noteq> [] \<Longrightarrow> last s = last p"
  unfolding endsWith_def by (metis last_drop length_greater_0_conv diff_less less_le_trans)

lemma ext_last:
  "last (js ''.mpd'') = 0x64" "last (js ''.flv'') = 0x76" "last (js ''.ts'') = 0x73"
  "last (js ''.m3u8'') = 0x38"
  by (simp_all add: js_def)

lemma ext_nonempty:
  "js ''.mpd'' \<noteq> []" "js ''.flv'' \<noteq> []" "js ''.ts'' \<noteq> []" "js ''.m3u8'' \<noteq> []"
  by (simp_all add: js_def)

lemma endsWith_ext:
  "isDash u \<Longrightarrow> last (cleanUrl u) = 0x64"
  "isFlv u \<Longrightarrow> last (cleanUrl u) = 0x76"
  "isTs u \<Longrightarrow> last (cleanUrl u) = 0x73"
  "isM3u8 u \<Longrightarrow> last (cleanUrl u) = 0x38"
  unfolding isDash_def isFlv_def isTs_def isM3u8_def
  using endsWith_last[of "cleanUrl u"] ext_last ext_nonempty by metis+

lemma extensions_exclusive:
  "isDash u \<Longrightarrow> \<not> isFlv u \<and> \<not> isTs u \<and> \<not> isM3u8 u"
  "isFlv u \<Longrightarrow> \<not> isTs u \<and> \<not> isM3u8 u"
  "isTs u \<Longrightarrow> \<not> isM3u8 u"
  using endsWith_ext[of u] by auto

lemmas url_eval =
  isDash_def isFlv_def isTs_def isM3u8_def cleanUrl_def endsWith_def toLowerCase_def js_def
  trim_def isWhiteSpace_def

lemma demo_backends:
  "backend dash_session = DASH" "backend hls_session = HLS" "backend mpegts_session = MPEG_TS_FLV"
  by (simp_all add: dash_session_def hls_session_def mpegts_session_def session_def
      classify_def demo_env_def url_eval)

text \<open>
  C7. The backend is a function of the URL and the three capability flags, and it depends
  on the URL only through its trimmed, query-stripped, lower-cased form. First match wins:
  \<open>.mpd\<close> gives DASH; \<open>.flv\<close> or \<open>.ts\<close> gives MPEG_TS_FLV when segmented playback is
  supported, and otherwise reaches no later rule but the last (NATIVE); \<open>.m3u8\<close>, or no
  recognized extension with no native HLS support, gives HLS when the HLS engine is
  available; everything else gives NATIVE. \<open>.MPD?token=1\<close> is DASH in every environment.
\<close>

theorem classify_first_match:
  "(isDash u \<longrightarrow> classify u e = DASH) \<and>
   ((isFlv u \<or> isTs u) \<and> mseLivePlayback e \<longrightarrow> classify u e = MPEG_TS_FLV) \<and>
   ((isFlv u \<or> isTs u) \<and> \<not> mseLivePlayback e \<longrightarrow> classify u e = NATIVE) \<and>
   (isM3u8 u \<and> hlsSupported e \<longrightarrow> classify u e = HLS) \<and>
   (\<not> isDash u \<and> \<not> isFlv u \<and> \<not> isTs u \<and> \<not> isM3u8 u \<and> canPlayType_mpegurl e = [] \<and>
      hlsSupported e \<longrightarrow> classify u e = HLS) \<and>
   (\<not> isDash u \<and> \<not> isFlv u \<and> \<not> isTs u \<and>
      \<not> (hlsSupported e \<and> (isM3u8 u \<or> canPlayType_mpegurl e = [])) \<longrightarrow>
      classify u e = NATIVE) \<and>
   (cleanUrl u = cleanUrl u' \<longrightarrow> classify u e = classify u' e) \<and>
   classify (js ''.MPD?token=1'') e = DASH"
proof -
  have ex: "classify (js ''.MPD?token=1'') e = DASH"
    by (simp add: classify_def url_eval)
  have same: "cleanUrl u = cleanUrl u' \<Longrightarrow> classify u e = classify u' e"
    by (simp add: classify_def isDash_def isFlv_def isTs_def isM3u8_def)
  show ?thesis using extensions_exclusive[of u] ex same
    by (auto simp: classify_def)
qed

theorem classify_first_match_witness:
  "isDash (js ''https://h/live.mpd'') \<and>
   classify (js ''https://h/live.mpd'') demo_env = DASH \<and>
   isTs (js ''https://h/live.ts'') \<and> mseLivePlayback demo_env \<and>
   classify (js ''https://h/live.ts'') demo_env = MPEG_TS_FLV \<and>
   isFlv (js ''a.FLV?x=1'') \<and> \<not> mseLivePlayback (demo_env\<lparr>mseLivePlayback := False\<rparr>) \<and>
   classify (js ''a.FLV?x=1'') (demo_env\<lparr>mseLivePlayback := False\<rparr>) = NATIVE \<and>
   isM3u8 (js ''https://h/live.m3u8'') \<and> hlsSupported demo_env \<and>
   classify (js ''https://h/live.m3u8'') demo_env = HLS \<and>
   \<not> isDash (js ''https://h/live'') \<and> \<not> isFlv (js ''https://h/live'') \<and>
   \<not> isTs (js ''https://h/live'') \<and> \<not> isM3u8 (js ''https://h/live'') \<and>
   canPlayType_mpegurl demo_env = [] \<and>
   classify (js ''https://h/live'') demo_env = HLS \<and>
   \<not> hlsSupported (demo_env\<lparr>hlsSupported := False\<rparr>) \<and>
   classify (js ''https://h/live'') (demo_env\<lparr>hlsSupported := False\<rparr>) = NATIVE \<and>
   cleanUrl (js ''A.MPD?t=1'') = cleanUrl (js ''a.mpd'') \<and>
   classify (js ''A.MPD?t=1'') demo_env = classify (js ''a.mpd'') demo_env"
proof -
  have h1: "isDash (js ''https://h/live.mpd'')" by (simp add: url_eval)
  have h2: "isTs (js ''https://h/live.ts'')" by (simp add: url_eval)
  have h3: "isFlv (js ''a.FLV?x=1'')" by (simp add: url_eval)
  have h4: "isM3u8 (js ''https://h/live.m3u8'')" by (simp add: url_eval)
  have h5: "\<not> isDash (js ''https://h/live'') \<and> \<not> isFlv (js ''https://h/live'') \<and>
    \<not> isTs (js ''https://h/live'') \<and> \<not> isM3u8 (js ''https://h/live'')"
    by (simp add: url_eval)
  have h6: "cleanUrl (js ''A.MPD?t=1'') = cleanUrl (js ''a.mpd'')" by (simp add: url_eval)
  have e: "mseLivePlayback demo_env" "hlsSupported demo_env" "canPlayType_mpegurl demo_env = []"
    by (simp_all add: demo_env_def)
  show ?thesis
    using h1 h2 h3 h4 h5 h6 e
      classify_first_match[of "js ''https://h/live.mpd''" demo_env]
      classify_first_match[of "js ''https://h/live.ts''" demo_env]
      classify_first_match[of "js ''a.FLV?x=1''" "demo_env\<lparr>mseLivePlayback := False\<rparr>"]
      classify_first_match[of "js ''https://h/live.m3u8''" demo_env]
      classify_first_match[of "js ''https://h/live''" demo_env]
      classify_first_match[of "js ''https://h/live''" "demo_env\<lparr>hlsSupported := False\<rparr>"]
      classify_first_match[of "js ''A.MPD?t=1''" demo_env "js ''a.mpd''"]
    by simp
qed

subsection \<open>Buffer health\<close>

lemma ulp_pos: "0 < ulp e"
  by (simp add: ulp_def)

lemma round_even_sign:
  "0 \<le> y \<Longrightarrow> 0 \<le> round_even y" "y \<le> 0 \<Longrightarrow> round_even y \<le> 0"
proof -
  show "0 \<le> y \<Longrightarrow> 0 \<le> round_even y"
    by (auto simp: round_even_def Let_def)
  assume y: "y \<le> 0"
  show "round_even y \<le> 0"
  proof (cases "y = 0")
    case True
    then show ?thesis by (simp add: round_even_def)
  next
    case False
    then have "y < 0" using y by simp
    then have "\<lfloor>y\<rfloor> + 1 \<le> 0" by (simp add: floor_less_iff add1_zle_eq)
    then show ?thesis by (auto simp: round_even_def Let_def)
  qed
qed

lemma round_double_sign:
  "0 \<le> x \<Longrightarrow> 0 \<le> round_double x" "x \<le> 0 \<Longrightarrow> round_double x \<le> 0"
proof -
  let ?u = "ulp (max (binade 1100 \<bar>x\<bar>) (- 1022))"
  have u: "0 < ?u" by (rule ulp_pos)
  show "0 \<le> x \<Longrightarrow> 0 \<le> round_double x"
  proof -
    assume "0 \<le> x"
    then have "0 \<le> x / ?u" using u by simp
    from round_even_sign(1)[OF this] u show ?thesis
      by (simp add: round_double_def Let_def)
  qed
  show "x \<le> 0 \<Longrightarrow> round_double x \<le> 0"
  proof -
    assume "x \<le> 0"
    then have "x / ?u \<le> 0" using u by (simp add: divide_nonpos_pos)
    from round_even_sign(2)[OF this] u show ?thesis
      by (simp add: round_double_def Let_def mult_nonneg_nonpos)
  qed
qed

lemmas double_eval = js_minus_def round_double_def round_even_def ulp_def binade.simps Let_def

lemma js_minus_examples:
  "js_minus 20 12 = 8" "js_minus (27 / 2) 12 = 3 / 2"
  "js_minus (5967269506265907 / 1125899906842624) (5404319552844595 / 18014398509481984) = 5"
  "(5967269506265907 / 1125899906842624 :: real) - 5404319552844595 / 18014398509481984 < 5"
  by (simp_all add: double_eval)

lemma bufferLead_covering:
  assumes "0 \<le> t"
  shows "max 0 (js_minus (bufferEnd t rs) t) =
      (case find (\<lambda>(s, e). s \<le> t \<and> t \<le> e) rs of
         Some (s, e) \<Rightarrow> js_minus e t
       | None \<Rightarrow> 0)"
proof (induction rs)
  case Nil
  have "js_minus 0 t \<le> 0" using assms round_double_sign(2)[of "0 - t"] by (simp add: js_minus_def)
  then show ?case by simp
next
  case (Cons r rs)
  obtain s e where r: "r = (s, e)" by (cases r)
  show ?case
  proof (cases "s \<le> t \<and> t \<le> e")
    case True
    then have "0 \<le> js_minus e t" using round_double_sign(1)[of "e - t"] by (simp add: js_minus_def)
    then show ?thesis using True r by simp
  next
    case False
    then show ?thesis using r Cons by auto
  qed
qed

text \<open>
  C8. A health sample is \<open>offline\<close> with lead 0 when the element reports an error or the
  player is pending removal; otherwise \<open>buffering\<close> with lead 0 when the ready state is
  below 3; otherwise, for a playback position that is not negative, the lead is the end
  of the first buffered range that covers the position minus the position (the
  subtraction of two doubles, \<open>js_minus\<close>), 0 when none covers it, and the sample is
  \<open>poor\<close> for a lead below 2, \<open>fair\<close> from 2 to below 5 and \<open>good\<close> from 5. Buffered
  [0, 20] at position 12 gives lead 8 and \<open>good\<close>; position 9 with the only range
  [10, 10.5] and ready state 4 gives lead 0 and \<open>poor\<close>.
\<close>

theorem checkHealth_classes:
  "((video_error v \<or> removing) \<longrightarrow>
      status (checkHealth (Some v) removing m) = offline \<and>
      bufferLead (checkHealth (Some v) removing m) = 0) \<and>
   (\<not> video_error v \<and> \<not> removing \<and> readyState v < 3 \<longrightarrow>
      status (checkHealth (Some v) removing m) = buffering \<and>
      bufferLead (checkHealth (Some v) removing m) = 0) \<and>
   (\<not> video_error v \<and> \<not> removing \<and> 3 \<le> readyState v \<and> 0 \<le> currentTime v \<longrightarrow>
      bufferLead (checkHealth (Some v) removing m) =
        (case find (\<lambda>(s, e). s \<le> currentTime v \<and> currentTime v \<le> e) (buffered v) of
           Some (s, e) \<Rightarrow> js_minus e (currentTime v)
         | None \<Rightarrow> 0) \<and>
      status (checkHealth (Some v) removing m) =
        (if bufferLead (checkHealth (Some v) removing m) < 2 then poor
         else if bufferLead (checkHealth (Some v) removing m) < 5 then fair
         else good)) \<and>
   checkHealth (Some \<lparr>video_error = False, readyState = 4, currentTime = 12,
                       buffered = [(0, 20)]\<rparr>) False m =
     \<lparr>status = good, bufferLead = 8, color = ''text-green-400''\<rparr> \<and>
   checkHealth (Some \<lparr>video_error = False, readyState = 4, currentTime = 9,
                       buffered = [(10, 10.5)]\<rparr>) False m =
     \<lparr>status = poor, bufferLead = 0, color = ''text-red-400''\<rparr>"
proof -
  have z: "max 0 (js_minus 0 9) = 0"
    using round_double_sign(2)[of "0 - 9"] by (simp add: js_minus_def)
  show ?thesis
    using bufferLead_covering[of "currentTime v" "buffered v"] z
    by (simp add: checkHealth_def Let_def js_minus_examples(1))
qed

theorem checkHealth_classes_witness:
  "status (checkHealth (Some demo_video) True demo_metrics) = offline \<and>
   bufferLead (checkHealth (Some demo_video) True demo_metrics) = 0 \<and>
   readyState (demo_video\<lparr>readyState := 2\<rparr>) < 3 \<and>
   status (checkHealth (Some (demo_video\<lparr>readyState := 2\<rparr>)) False demo_metrics) = buffering \<and>
   bufferLead (checkHealth (Some (demo_video\<lparr>readyState := 2\<rparr>)) False demo_metrics) = 0 \<and>
   \<not> video_error demo_video \<and> 3 \<le> readyState demo_video \<and> 0 \<le> currentTime demo_video \<and>
   bufferLead (checkHealth (Some demo_video) False demo_metrics) = 1.5 \<and>
   status (checkHealth (Some demo_video) False demo_metrics) = poor \<and>
   \<not> video_error edge_video \<and> 3 \<le> readyState edge_video \<and> 0 \<le> currentTime edge_video \<and>
   bufferLead (checkHealth (Some edge_video) False demo_metrics) = 5 \<and>
   status (checkHealth (Some edge_video) False demo_metrics) = good"
  using checkHealth_classes[of demo_video True demo_metrics]
    checkHealth_classes[of "demo_video\<lparr>readyState := 2\<rparr>" False demo_metrics]
    checkHealth_classes[of demo_video False demo_metrics]
    checkHealth_classes[of edge_video False demo_metrics]
  by (simp add: demo_video_def edge_video_def js_minus_examples)

subsection \<open>Fatal errors and the removal timer\<close>

lemma callbacks_append: "callbacks (xs @ ys) = callbacks xs @ callbacks ys"
  by (induction xs rule: callbacks.induct) simp_all

lemma emit_keeps:
  "isRemoving (emit as s) = isRemoving s \<and> timer (emit as s) = timer s \<and>
   channel_id (emit as s) = channel_id s \<and>
   callbacks (trace (emit as s)) = callbacks (trace s) @ callbacks as"
  by (simp add: emit_def callbacks_append)

lemma handleFatalError_removing:
  "isRemoving s \<Longrightarrow>
     isRemoving (handleFatalError msg s) \<and> timer (handleFatalError msg s) = timer s \<and>
     channel_id (handleFatalError msg s) = channel_id s \<and>
     callbacks (trace (handleFatalError msg s)) = callbacks (trace s)"
  by (simp add: handleFatalError_def removing_effect_def emit_def callbacks_append)

lemma destroyPlayers_keeps:
  "isRemoving (destroyPlayers s) = isRemoving s \<and> timer (destroyPlayers s) = timer s \<and>
   channel_id (destroyPlayers s) = channel_id s \<and> error (destroyPlayers s) = error s \<and>
   callbacks (trace (destroyPlayers s)) = callbacks (trace s)"
  by (simp add: destroyPlayers_def emit_def Let_def callbacks_append)

lemma step_removing:
  assumes "isRemoving s" and "\<not> (\<exists>n. ev = Elapse n)"
  shows "isRemoving (step ev s) \<and> channel_id (step ev s) = channel_id s \<and>
         timer (step ev s) = timer s \<and>
         callbacks (trace (step ev s)) = callbacks (trace s)"
proof (cases ev)
  case DashError
  then show ?thesis using assms
    by (simp add: dash_on_error_def handleFatalError_removing emit_keeps)
next
  case (MpegtsError ty)
  then show ?thesis using assms
    by (simp add: mpegts_on_error_def Let_def handleFatalError_removing emit_keeps)
next
  case (HlsError fatal ty)
  then show ?thesis using assms
    by (cases ty)
      (simp_all add: hls_on_error_def handleFatalError_removing emit_keeps destroyPlayers_keeps)
next
  case VideoError
  then show ?thesis using assms by (simp add: video_onerror_def handleFatalError_removing)
next
  case (PlayRejected nm)
  then show ?thesis using assms
    by (cases "backend s")
      (simp_all add: safePlay_catch_def mpegts_play_catch_def emit_def callbacks_append)
next
  case (Elapse n)
  then show ?thesis using assms by simp
qed

lemma run_removing:
  "isRemoving s \<Longrightarrow> timer s \<noteq> Some 0 \<Longrightarrow>
     callbacks (trace (run evs s)) =
       callbacks (trace s) @
       (case timer s of Some d \<Rightarrow> if d \<le> elapsed evs then [channel_id s] else [] | None \<Rightarrow> [])"
proof (induction evs arbitrary: s)
  case Nil
  then show ?case by (simp split: option.splits)
next
  case (Cons ev evs)
  show ?case
  proof (cases "\<exists>n. ev = Elapse n")
    case True
    then obtain n where ev: "ev = Elapse n" by blast
    show ?thesis
    proof (cases "timer s")
      case None
      then have "step ev s = s" using ev by (simp add: elapse_def)
      with Cons None ev show ?thesis by simp
    next
      case (Some d)
      show ?thesis
      proof (cases "d \<le> n")
        case True
        let ?t = "step ev s"
        have t: "isRemoving ?t" "timer ?t = None"
          "callbacks (trace ?t) = callbacks (trace s) @ [channel_id s]"
          using Cons.prems Some True ev by (simp_all add: elapse_def emit_def callbacks_append)
        have "callbacks (trace (run evs ?t)) = callbacks (trace ?t)"
          using Cons.IH[of ?t] t by simp
        with t Some True ev show ?thesis by simp
      next
        case False
        let ?t = "step ev s"
        have t: "isRemoving ?t" "timer ?t = Some (d - n)" "channel_id ?t = channel_id s"
          "callbacks (trace ?t) = callbacks (trace s)"
          using Cons.prems Some False ev by (simp_all add: elapse_def)
        have "timer ?t \<noteq> Some 0" using t False by simp
        from Cons.IH[OF t(1) this] t Some False ev show ?thesis by auto
      qed
    qed
  next
    case False
    let ?t = "step ev s"
    have t: "isRemoving ?t" "timer ?t = timer s" "channel_id ?t = channel_id s"
      "callbacks (trace ?t) = callbacks (trace s)"
      using step_removing[OF Cons.prems(1) False] by simp_all
    have el: "elapsed (ev # evs) = elapsed evs" using False by (cases ev) auto
    have "timer ?t \<noteq> Some 0" using t Cons.prems by simp
    from Cons.IH[OF t(1) this] t el show ?thesis by (simp split: option.splits)
  qed
qed

text \<open>
  C1. In a DASH session that is not yet pending removal, after an error event of the DASH
  engine and whatever the mounted player receives next (further errors of any kind, play
  rejections, time passing), \<open>onChannelError\<close> has been called with no identifier while
  less than 2500 ms have passed since the error, and exactly once, with the identifier of
  the session's channel, once 2500 ms have passed. An HLS error that is not flagged fatal
  leaves the whole player state as it was: no callback, no pending removal.
\<close>

theorem dash_fatal_callback_after_delay:
  assumes "backend s = DASH" and "\<not> isRemoving s"
  shows "callbacks (trace (run evs (step DashError s))) =
           callbacks (trace s) @ (if 2500 \<le> elapsed evs then [channel_id s] else []) \<and>
         run [HlsError False ty] h = h"
proof -
  let ?s = "step DashError s"
  have "isRemoving ?s" "timer ?s = Some 2500" "channel_id ?s = channel_id s"
    "callbacks (trace ?s) = callbacks (trace s)"
    using assms
    by (simp_all add: dash_on_error_def handleFatalError_def removing_effect_def emit_def
        callbacks_append)
  then have "callbacks (trace (run evs (step DashError s))) =
           callbacks (trace s) @ (if 2500 \<le> elapsed evs then [channel_id s] else [])"
    using run_removing[of ?s evs] by simp
  moreover have "run [HlsError False ty] h = h" by (simp add: hls_on_error_def)
  ultimately show ?thesis by simp
qed

theorem dash_fatal_callback_after_delay_witness:
  "backend dash_session = DASH \<and> \<not> isRemoving dash_session \<and>
   callbacks (trace (run [Elapse 1000, DashError, Elapse 1499] (step DashError dash_session))) = [] \<and>
   callbacks (trace (run [Elapse 1000, DashError, Elapse 1499, Elapse 1, DashError, Elapse 9000]
                      (step DashError dash_session))) = [js ''ch-1''] \<and>
   run [HlsError False NETWORK_ERROR] hls_session = hls_session"
proof -
  have b: "backend dash_session = DASH" by (rule demo_backends)
  have r: "\<not> isRemoving dash_session" "trace dash_session = []"
    "channel_id dash_session = js ''ch-1''"
    by (simp_all add: dash_session_def session_def Let_def)
  show ?thesis
    using b r
      dash_fatal_callback_after_delay[OF b r(1), of "[Elapse 1000, DashError, Elapse 1499]"
        NETWORK_ERROR hls_session]
      dash_fatal_callback_after_delay[OF b r(1),
        of "[Elapse 1000, DashError, Elapse 1499, Elapse 1, DashError, Elapse 9000]"
        NETWORK_ERROR hls_session]
    by simp
qed

subsection \<open>HLS errors\<close>

text \<open>
  C2. The HLS error handler ignores an event that is not flagged fatal; on a fatal
  network error it calls \<open>startLoad\<close> and on a fatal media error \<open>recoverMediaError\<close>, and
  in both cases nothing else changes (no error message, no pending removal, no timer, the
  adapter stays); on a fatal error of any other class it destroys the adapters, records
  the message \<open>Stream Connection Failed\<close> and marks the player as pending removal.
\<close>

theorem hls_error_classes:
  "(\<not> fatal \<longrightarrow> hls_on_error fatal ty s = s) \<and>
   (fatal \<and> ty = NETWORK_ERROR \<longrightarrow>
      hls_on_error fatal ty s =
        s\<lparr>trace := trace s @
             [ConsoleLog ''fatal network error encountered, trying to recover'',
              HlsStartLoad]\<rparr>) \<and>
   (fatal \<and> ty = MEDIA_ERROR \<longrightarrow>
      hls_on_error fatal ty s =
        s\<lparr>trace := trace s @
             [ConsoleLog ''fatal media error encountered, trying to recover'',
              HlsRecoverMediaError]\<rparr>) \<and>
   (fatal \<and> ty \<noteq> NETWORK_ERROR \<and> ty \<noteq> MEDIA_ERROR \<longrightarrow>
      error (hls_on_error fatal ty s) = Some ''Stream Connection Failed'' \<and>
      isRemoving (hls_on_error fatal ty s) \<and>
      \<not> hlsRef (hls_on_error fatal ty s) \<and>
      \<not> dashRef (hls_on_error fatal ty s) \<and>
      \<not> mpegtsRef (hls_on_error fatal ty s) \<and>
      (hlsRef s \<longrightarrow> HlsDestroy \<in> set (drop (length (trace s)) (trace (hls_on_error fatal ty s)))) \<and>
      (\<not> isRemoving s \<longrightarrow> timer (hls_on_error fatal ty s) = Some 2500))"
  by (cases ty)
    (simp_all add: hls_on_error_def emit_def handleFatalError_def removing_effect_def
      destroyPlayers_def Let_def)

theorem hls_error_classes_witness:
  "hls_on_error False OTHER_ERROR hls_session = hls_session \<and>
   trace (hls_on_error True NETWORK_ERROR hls_session) =
     [ConsoleLog ''fatal network error encountered, trying to recover'', HlsStartLoad] \<and>
   error (hls_on_error True NETWORK_ERROR hls_session) = None \<and>
   \<not> isRemoving (hls_on_error True NETWORK_ERROR hls_session) \<and>
   trace (hls_on_error True MEDIA_ERROR hls_session) =
     [ConsoleLog ''fatal media error encountered, trying to recover'', HlsRecoverMediaError] \<and>
   \<not> isRemoving (hls_on_error True MEDIA_ERROR hls_session) \<and>
   hlsRef hls_session \<and> \<not> isRemoving hls_session \<and>
   error (hls_on_error True KEY_SYSTEM_ERROR hls_session) = Some ''Stream Connection Failed'' \<and>
   isRemoving (hls_on_error True KEY_SYSTEM_ERROR hls_session) \<and>
   \<not> hlsRef (hls_on_error True KEY_SYSTEM_ERROR hls_session) \<and>
   HlsDestroy \<in> set (drop (length (trace hls_session))
                         (trace (hls_on_error True KEY_SYSTEM_ERROR hls_session))) \<and>
   timer (hls_on_error True KEY_SYSTEM_ERROR hls_session) = Some 2500"
proof -
  have s: "hlsRef hls_session" "\<not> isRemoving hls_session" "trace hls_session = []"
    "error hls_session = None"
    using demo_backends(2) by (simp_all add: hls_session_def session_def Let_def)
  show ?thesis
    using s hls_error_classes[of False OTHER_ERROR hls_session]
      hls_error_classes[of True NETWORK_ERROR hls_session]
      hls_error_classes[of True MEDIA_ERROR hls_session]
      hls_error_classes[of True KEY_SYSTEM_ERROR hls_session]
    by simp
qed

subsection \<open>Play rejections\<close>

text \<open>
  C9. The claim fails for the segmented TS/FLV adapter: when the promise of its play
  request is rejected with \<open>NotAllowedError\<close>, the player logs an error and \<open>isPlaying\<close>
  stays true, while the same rejection in an HLS session (through \<open>safePlay\<close>) sets
  \<open>isPlaying\<close> to false. In neither case is a removal pending.
\<close>

theorem mpegts_not_allowed_stays_playing:
  "isPlaying mpegts_session \<and>
   isPlaying (step (PlayRejected ''NotAllowedError'') mpegts_session) \<and>
   trace (step (PlayRejected ''NotAllowedError'') mpegts_session) =
     [ConsoleError ''Auto-play failed''] \<and>
   isRemoving (step (PlayRejected ''NotAllowedError'') mpegts_session) = False \<and>
   isPlaying (step (PlayRejected ''NotAllowedError'') hls_session) = False \<and>
   trace (step (PlayRejected ''NotAllowedError'') hls_session) =
     [ConsoleWarn ''Auto-play prevented by browser policy'']"
proof -
  have m: "mpegts_session =
      \<lparr>channel_id = js ''ch-3'', backend = MPEG_TS_FLV, error = None, isRemoving = False,
       isPlaying = True, videoRef = True, hlsRef = False, dashRef = False, mpegtsRef = True,
       timer = None, trace = []\<rparr>"
    using demo_backends(3) by (simp add: mpegts_session_def session_def Let_def)
  have h: "hls_session =
      \<lparr>channel_id = js ''ch-2'', backend = HLS, error = None, isRemoving = False,
       isPlaying = True, videoRef = True, hlsRef = True, dashRef = False, mpegtsRef = False,
       timer = None, trace = []\<rparr>"
    using demo_backends(2) by (simp add: hls_session_def session_def Let_def)
  show ?thesis
    unfolding m h by (simp add: mpegts_play_catch_def safePlay_catch_def emit_def)
qed

section \<open>Properties of the parser\<close>

subsection \<open>Splitting and the kinds of line\<close>

lemma cons_first_not_Nil: "cons_first x ps \<noteq> []"
  by (cases ps) simp_all

lemma js_split_not_Nil: "js_split d s \<noteq> []"
  by (induction s) (simp_all add: cons_first_not_Nil)

lemma js_split_unfold:
  "js_split d s =
     takeWhile (\<lambda>c. c \<noteq> d) s #
     (if d \<in> set s then js_split d (drop 1 (dropWhile (\<lambda>c. c \<noteq> d) s)) else [])"
proof (induction s)
  case Nil
  show ?case by simp
next
  case (Cons x xs)
  show ?case
  proof (cases "x = d")
    case True
    then show ?thesis by simp
  next
    case False
    then show ?thesis by (subst js_split.simps, subst Cons.IH) simp
  qed
qed

lemma hd_js_split: "hd (js_split d s) = takeWhile (\<lambda>c. c \<noteq> d) s"
  by (subst js_split_unfold) simp

lemma js_nth_split_0: "js_nth (js_split d s) 0 = Some (takeWhile (\<lambda>c. c \<noteq> d) s)"
  by (subst js_split_unfold) simp

lemma js_nth_split_1:
  "js_nth (js_split d s) 1 =
     (if d \<in> set s
      then Some (takeWhile (\<lambda>c. c \<noteq> d) (drop 1 (dropWhile (\<lambda>c. c \<noteq> d) s)))
      else None)"
proof -
  have "js_nth (js_split d s) (Suc 0) =
     (if d \<in> set s then js_nth (js_split d (drop 1 (dropWhile (\<lambda>c. c \<noteq> d) s))) 0 else None)"
    by (subst js_split_unfold) simp
  then show ?thesis by (simp add: js_nth_split_0)
qed

lemma startsWith_append: "startsWith t (p @ q) \<Longrightarrow> startsWith t p"
proof -
  assume "startsWith t (p @ q)"
  then have "take (length p + length q) t = p @ q" by (simp add: startsWith_def)
  then have "take (length p) (take (length p + length q) t) = take (length p) (p @ q)" by simp
  then show ?thesis by (simp add: startsWith_def min_def)
qed

lemma hash_prefixes:
  "js ''#KODIPROP:'' = js ''#'' @ js ''KODIPROP:''"
  "js ''#EXTINF:'' = js ''#'' @ js ''EXTINF:''"
  "js ''#KODIPROP:'' = js ''#K'' @ js ''ODIPROP:''"
  "js ''#EXTINF:'' = js ''#E'' @ js ''XTINF:''"
  by (simp_all add: js_def)

lemma line_kinds:
  "is_url l \<Longrightarrow> \<not> is_kodiprop l \<and> \<not> is_extinf l"
  "is_kodiprop l \<Longrightarrow> \<not> is_extinf l"
proof -
  show "is_url l \<Longrightarrow> \<not> is_kodiprop l \<and> \<not> is_extinf l"
    unfolding is_url_def is_kodiprop_def is_extinf_def
    using startsWith_append[of "trim l" "js ''#''"] hash_prefixes(1,2) by metis
  show "is_kodiprop l \<Longrightarrow> \<not> is_extinf l"
  proof
    assume k: "is_kodiprop l" and e: "is_extinf l"
    have "startsWith (trim l) (js ''#K'')"
      using k startsWith_append[of "trim l" "js ''#K''"] hash_prefixes(3)
      unfolding is_kodiprop_def by metis
    moreover have "startsWith (trim l) (js ''#E'')"
      using e startsWith_append[of "trim l" "js ''#E''"] hash_prefixes(4)
      unfolding is_extinf_def by metis
    ultimately show False by (simp add: startsWith_def js_def)
  qed
qed

lemma startsWith_nonempty: "startsWith t p \<Longrightarrow> p \<noteq> [] \<Longrightarrow> t \<noteq> []"
  by (auto simp: startsWith_def)

lemma js_nonempty: "js ''#KODIPROP:'' \<noteq> []" "js ''#EXTINF:'' \<noteq> []"
  by (simp_all add: js_def)

lemma processLine_url:
  assumes "is_url l"
  shows "processLine now i l st =
     (case processDrm (currentProps st) of
        Inl e \<Rightarrow> Inl e
      | Inr d \<Rightarrow>
          Inr \<lparr>channels = channels st @ [new_channel now i (trim l) d st],
               categoriesSet =
                 set_add (categoriesSet st)
                   (or_else (p_group (currentChannel st)) (js ''Uncategorized'')),
               currentChannel = no_channel,
               currentProps = []\<rparr>)"
  using assms line_kinds(1)[OF assms]
  by (simp add: processLine_def is_url_def is_kodiprop_def is_extinf_def Let_def)

lemma processLine_extinf:
  assumes "is_extinf l"
  shows "processLine now i l st =
     Inr (st\<lparr>currentChannel := extinf_channel (drop 8 (trim l)),
             categoriesSet :=
               (if truthy (p_group (extinf_channel (drop 8 (trim l))))
                then set_add (categoriesSet st)
                       (or_else (p_group (extinf_channel (drop 8 (trim l)))) [])
                else categoriesSet st)\<rparr>)"
proof -
  have "\<not> is_kodiprop l" using assms line_kinds(2) by blast
  moreover have "trim l \<noteq> []"
    using assms startsWith_nonempty js_nonempty(2) unfolding is_extinf_def by blast
  ultimately show ?thesis using assms
    by (simp add: processLine_def is_kodiprop_def is_extinf_def Let_def)
qed

lemma processLine_other:
  assumes "\<not> is_url l" and "\<not> is_extinf l"
  shows "\<exists>p. processLine now i l st = Inr (st\<lparr>currentProps := p\<rparr>) \<and>
             (\<not> is_kodiprop l \<longrightarrow> p = currentProps st)"
proof (cases "trim l = []")
  case True
  then have "processLine now i l st = Inr (st\<lparr>currentProps := currentProps st\<rparr>)"
    by (simp add: processLine_def)
  then show ?thesis by blast
next
  case False
  show ?thesis
  proof (cases "is_kodiprop l")
    case True
    then show ?thesis using False
      by (cases "indexOf (drop 10 (trim l)) 0x3D")
        (auto simp: processLine_def is_kodiprop_def Let_def intro: exI[of _ "currentProps st"])
  next
    case nk: False
    have "processLine now i l st = Inr (st\<lparr>currentProps := currentProps st\<rparr>)"
      using False nk assms by (simp add: processLine_def is_kodiprop_def is_extinf_def is_url_def)
    then show ?thesis by blast
  qed
qed

lemma forEach_append:
  "forEach_lines now i (xs @ ys) st =
     (case forEach_lines now i xs st of
        Inl e \<Rightarrow> Inl e
      | Inr st' \<Rightarrow> forEach_lines now (i + length xs) ys st')"
  by (induction xs arbitrary: i st) (auto split: sum.splits)

lemma forEach_split:
  assumes "forEach_lines now i (xs @ ys) st = Inr st''"
  shows "\<exists>st'. forEach_lines now i xs st = Inr st' \<and>
               forEach_lines now (i + length xs) ys st' = Inr st''"
  using assms by (simp add: forEach_append split: sum.splits)


subsection \<open>What a run of the loop does to the channels and the categories\<close>

lemma channel_groups_simps:
  "channel_groups [] = {}"
  "channel_groups (a @ b) = channel_groups a \<union> channel_groups b"
  "channel_groups [c] = {g. group c = Some g}"
  by (auto simp: channel_groups_def)

lemma extinf_groups_simps:
  "extinf_groups [] = {}"
  "\<not> is_extinf l \<Longrightarrow> extinf_groups [l] = {}"
  by (auto simp: extinf_groups_def)

lemma extinf_groups_Cons: "extinf_groups (l # ls) = extinf_groups [l] \<union> extinf_groups ls"
  by (auto simp: extinf_groups_def)

lemma url_count_simps:
  "url_count [] = 0"
  "url_count (l # ls) = (if is_url l then 1 else 0) + url_count ls"
  "url_count (xs @ ys) = url_count xs + url_count ys"
  by (simp_all add: url_count_def)

lemma set_add_set: "set (set_add xs x) = insert x (set xs)"
  by (auto simp: set_add_def)

lemma set_add_distinct: "distinct xs \<Longrightarrow> distinct (set_add xs x)"
  by (simp add: set_add_def)

lemma extinf_group_Some: "\<exists>g. p_group (extinf_channel info) = Some g"
  by (simp add: extinf_channel_def Let_def)

lemma processLine_step:
  assumes "processLine now i l st = Inr st'"
  shows "\<exists>new. channels st' = channels st @ new \<and>
           length new = url_count [l] \<and>
           set (categoriesSet st') =
             set (categoriesSet st) \<union> channel_groups new \<union> extinf_groups [l] \<and>
           (distinct (categoriesSet st) \<longrightarrow> distinct (categoriesSet st'))"
proof (cases "is_url l")
  case True
  then obtain d where d: "processDrm (currentProps st) = Inr d"
    and st': "st' = \<lparr>channels = channels st @ [new_channel now i (trim l) d st],
               categoriesSet =
                 set_add (categoriesSet st)
                   (or_else (p_group (currentChannel st)) (js ''Uncategorized'')),
               currentChannel = no_channel,
               currentProps = []\<rparr>"
    using assms by (auto simp: processLine_url split: sum.splits)
  have ne: "\<not> is_extinf l" using True line_kinds(1) by blast
  have g: "group (new_channel now i (trim l) d st) =
      Some (or_else (p_group (currentChannel st)) (js ''Uncategorized''))"
    by (simp add: new_channel_def Let_def)
  show ?thesis
    apply (rule exI[of _ "[new_channel now i (trim l) d st]"])
    using True ne g
    by (auto simp: st' url_count_simps channel_groups_simps extinf_groups_simps set_add_set
        set_add_distinct)
next
  case nu: False
  show ?thesis
  proof (cases "is_extinf l")
    case True
    obtain g where g: "p_group (extinf_channel (drop 8 (trim l))) = Some g"
      using extinf_group_Some by blast
    have eg: "extinf_groups [l] = (if g = [] then {} else {g})"
      using True g by (auto simp: extinf_groups_def)
    have st': "st' = st\<lparr>currentChannel := extinf_channel (drop 8 (trim l)),
             categoriesSet := (if g \<noteq> [] then set_add (categoriesSet st) g else categoriesSet st)\<rparr>"
    proof -
      have "Inr st' = processLine now i l st" using assms by simp
      also have "\<dots> = Inr (st\<lparr>currentChannel := extinf_channel (drop 8 (trim l)),
             categoriesSet := (if g \<noteq> [] then set_add (categoriesSet st) g else categoriesSet st)\<rparr>)"
        unfolding processLine_extinf[OF True] g by simp
      finally show ?thesis by simp
    qed
    show ?thesis
      apply (rule exI[of _ "[]"])
      using nu eg
      by (auto simp: st' url_count_simps channel_groups_simps set_add_set set_add_distinct)
  next
    case False
    then obtain p where "st' = st\<lparr>currentProps := p\<rparr>"
      using processLine_other[OF nu False, of now i st] assms by auto
    then show ?thesis
      apply -
      apply (rule exI[of _ "[]"])
      using nu False
      by (auto simp: url_count_simps channel_groups_simps extinf_groups_simps)
  qed
qed

lemma forEach_step:
  "forEach_lines now i ls st = Inr st' \<Longrightarrow>
     \<exists>new. channels st' = channels st @ new \<and>
           length new = url_count ls \<and>
           set (categoriesSet st') =
             set (categoriesSet st) \<union> channel_groups new \<union> extinf_groups ls \<and>
           (distinct (categoriesSet st) \<longrightarrow> distinct (categoriesSet st'))"
proof (induction ls arbitrary: i st)
  case Nil
  then show ?case by (auto simp: url_count_simps channel_groups_simps extinf_groups_simps)
next
  case (Cons l ls)
  from Cons.prems obtain st1 where
    s1: "processLine now i l st = Inr st1" and s2: "forEach_lines now (Suc i) ls st1 = Inr st'"
    by (auto split: sum.splits)
  from processLine_step[OF s1] obtain n1 where
    n1: "channels st1 = channels st @ n1" "length n1 = url_count [l]"
      "set (categoriesSet st1) = set (categoriesSet st) \<union> channel_groups n1 \<union> extinf_groups [l]"
      "distinct (categoriesSet st) \<longrightarrow> distinct (categoriesSet st1)"
    by blast
  from Cons.IH[OF s2] obtain n2 where
    n2: "channels st' = channels st1 @ n2" "length n2 = url_count ls"
      "set (categoriesSet st') = set (categoriesSet st1) \<union> channel_groups n2 \<union> extinf_groups ls"
      "distinct (categoriesSet st1) \<longrightarrow> distinct (categoriesSet st')"
    by blast
  have e: "extinf_groups (l # ls) = extinf_groups [l] \<union> extinf_groups ls"
    by (rule extinf_groups_Cons)
  have u: "url_count (l # ls) = url_count [l] + url_count ls"
    using url_count_simps(3)[of "[l]" ls] by simp
  show ?case
    apply (rule exI[of _ "n1 @ n2"])
    using n1 n2 e u by (auto simp: channel_groups_simps)
qed

lemma init_channels: "channels init_pstate = []" "categoriesSet init_pstate = []"
  "currentProps init_pstate = []" "currentChannel init_pstate = no_channel"
  by (simp_all add: init_pstate_def)

lemma parse_state:
  assumes "parseM3U now content = Inr r"
  shows "\<exists>st. forEach_lines now 0 (js_split 0x0A content) init_pstate = Inr st \<and>
              res_channels r = channels st \<and>
              res_categories r = sortedCategories (categoriesSet st)"
  using assms by (auto simp: parseM3U_def split: sum.splits)

lemma url_line_channel:
  assumes p: "parseM3U now content = Inr r"
    and l: "js_split 0x0A content = pre @ [u] @ post"
    and u: "is_url u"
    and pre: "forEach_lines now 0 pre init_pstate = Inr st"
  shows "\<exists>d. processDrm (currentProps st) = Inr d \<and>
             length (channels st) = url_count pre \<and>
             length (channels st) < length (res_channels r) \<and>
             res_channels r ! length (channels st) =
               new_channel now (length pre) (trim u) d st"
proof -
  from parse_state[OF p] obtain fin where
    fin: "forEach_lines now 0 (pre @ [u] @ post) init_pstate = Inr fin"
      "res_channels r = channels fin"
    using l by auto
  from forEach_split[OF fin(1)] pre obtain
    rest: "forEach_lines now (length pre) ([u] @ post) st = Inr fin" by auto
  from forEach_split[OF rest] obtain s1 where
    s1: "forEach_lines now (length pre) [u] st = Inr s1"
      and s2: "forEach_lines now (length pre + length [u]) post s1 = Inr fin" by blast
  from s1 have pl: "processLine now (length pre) u st = Inr s1" by (simp split: sum.splits)
  then obtain d where d: "processDrm (currentProps st) = Inr d"
    and c1: "channels s1 = channels st @ [new_channel now (length pre) (trim u) d st]"
    using u by (auto simp: processLine_url split: sum.splits)
  from forEach_step[OF s2] obtain n2 where n2: "channels fin = channels s1 @ n2" by blast
  from forEach_step[OF pre] have len: "length (channels st) = url_count pre"
    by (auto simp: init_channels)
  show ?thesis
    apply (rule exI[of _ d])
    using d c1 n2 fin(2) len by (simp add: nth_append)
qed


lemma sort_distinct: "distinct xs \<Longrightarrow> sort xs = sorted_list_of_set (set xs)"
  by (simp add: sorted_list_of_set_sort_remdups distinct_remdups_id)

lemma sortedCategories_names: "map cat_name (sortedCategories cs) = js ''All Channels'' # sort cs"
proof -
  have h: "map (cat_name \<circ> (\<lambda>(idx, cat). \<lparr>cat_id = js ''cat-'' @ string_of_nat idx, cat_name = cat\<rparr>)) ps
      = map snd ps" for ps :: "(nat \<times> jsstring) list"
    by (induction ps) auto
  show ?thesis by (simp add: sortedCategories_def h map_snd_enumerate)
qed

lemma sortedCategories_ids:
  "map cat_id (sortedCategories cs) =
     js ''all'' # map (\<lambda>idx. js ''cat-'' @ string_of_nat idx) [0..<length cs]"
proof -
  have h: "map (cat_id \<circ> (\<lambda>(idx, cat). \<lparr>cat_id = js ''cat-'' @ string_of_nat idx, cat_name = cat\<rparr>)) ps
      = map (\<lambda>idx. js ''cat-'' @ string_of_nat idx) (map fst ps)" for ps :: "(nat \<times> jsstring) list"
    by (induction ps) auto
  show ?thesis by (simp add: sortedCategories_def h map_fst_enumerate)
qed

lemmas parse_eval =
  parseM3U_def js_def processLine_def trim_def isWhiteSpace_def startsWith_def processDrm_def
  obj_get_def obj_set_def init_pstate_def pct_octet_def hexval_def sortedCategories_def
  set_add_def no_channel_def string_of_nat.simps fixed_clock_def extinf_channel_def
  new_channel_def match_here_def dquote_def Let_def

text \<open>
  C3 (as amended). For every input that parses, the names of the category sequence are
  \<open>All Channels\<close> at index 0 followed by the sorted distinct set of the group names of
  the parsed channels together with the non-empty group names of the metadata lines of
  the input; the identifiers are \<open>all\<close>, then \<open>cat-0\<close>, \<open>cat-1\<close>, ... in that order;
  and every parsed channel's group is among the names. A metadata line's group is
  recorded when the line is read, whether or not a URL line completes it.
\<close>

theorem categories_from_channels_and_metadata:
  assumes "parseM3U now content = Inr r"
  shows "map cat_name (res_categories r) =
           js ''All Channels'' #
           sorted_list_of_set
             (channel_groups (res_channels r) \<union> extinf_groups (js_split 0x0A content)) \<and>
         map cat_id (res_categories r) =
           js ''all'' #
           map (\<lambda>idx. js ''cat-'' @ string_of_nat idx) [0..<length (res_categories r) - 1] \<and>
         channel_groups (res_channels r) \<subseteq> set (map cat_name (res_categories r))"
proof -
  from parse_state[OF assms] obtain st where
    st: "forEach_lines now 0 (js_split 0x0A content) init_pstate = Inr st"
      "res_channels r = channels st" "res_categories r = sortedCategories (categoriesSet st)"
    by blast
  from forEach_step[OF st(1)] have
    cs: "set (categoriesSet st) =
          channel_groups (channels st) \<union> extinf_groups (js_split 0x0A content)"
      and d: "distinct (categoriesSet st)"
    by (auto simp: init_channels)
  have n: "map cat_name (res_categories r) =
      js ''All Channels'' #
      sorted_list_of_set (channel_groups (res_channels r) \<union> extinf_groups (js_split 0x0A content))"
    using st cs sort_distinct[OF d] by (simp add: sortedCategories_names)
  have len: "length (res_categories r) - 1 = length (categoriesSet st)"
    using arg_cong[OF sortedCategories_ids[of "categoriesSet st"], of length] st(3) by simp
  have i: "map cat_id (res_categories r) =
      js ''all'' # map (\<lambda>idx. js ''cat-'' @ string_of_nat idx) [0..<length (res_categories r) - 1]"
    unfolding len using st(3) by (simp add: sortedCategories_ids)
  have "set (map cat_name (res_categories r)) = insert (js ''All Channels'') (set (categoriesSet st))"
    using st(3) by (simp add: sortedCategories_names)
  then have s: "channel_groups (res_channels r) \<subseteq> set (map cat_name (res_categories r))"
    using cs st(2) by auto
  from n i s show ?thesis by blast
qed

text \<open>
  C3 as stated fails: a metadata line that no URL line follows yields no channel, and its
  group \<open>News\<close> is a category all the same.
\<close>

theorem category_without_channel_counterexample:
  "parseM3U fixed_clock orphan_playlist =
     Inr \<lparr>res_channels = [],
          res_categories =
            [\<lparr>cat_id = js ''all'', cat_name = js ''All Channels''\<rparr>,
             \<lparr>cat_id = js ''cat-0'', cat_name = js ''News''\<rparr>]\<rparr> \<and>
   js ''News'' \<notin> channel_groups []"
  by (simp add: orphan_playlist_def parse_eval channel_groups_def)


subsection \<open>What is pending when a URL line is reached\<close>

lemma forEach_last:
  assumes "forEach_lines now i (xs @ [l]) st = Inr st'"
  shows "\<exists>s. forEach_lines now i xs st = Inr s \<and> processLine now (i + length xs) l s = Inr st'"
proof -
  from forEach_split[OF assms] obtain s where
    a: "forEach_lines now i xs st = Inr s"
    and b: "forEach_lines now (i + length xs) [l] s = Inr st'" by blast
  from b have "processLine now (i + length xs) l s = Inr st'"
    by (cases "processLine now (i + length xs) l s") simp_all
  with a show ?thesis by blast
qed

lemma after_url:
  assumes "processLine now i l st = Inr st'" and "is_url l"
  shows "currentChannel st' = no_channel \<and> currentProps st' = []"
  using assms by (auto simp: processLine_url split: sum.splits)

lemma after_extinf:
  assumes "processLine now i l st = Inr st'" and "is_extinf l"
  shows "currentChannel st' = extinf_channel (drop 8 (trim l))"
  using assms by (auto simp: processLine_extinf)

lemma forEach_keeps_channel:
  "\<forall>l\<in>set mid. \<not> is_extinf l \<and> \<not> is_url l \<Longrightarrow> forEach_lines now i mid st = Inr st' \<Longrightarrow>
     currentChannel st' = currentChannel st \<and> channels st' = channels st"
proof (induction mid arbitrary: i st)
  case Nil
  then show ?case by simp
next
  case (Cons l ls)
  from Cons.prems(2) obtain s1 where
    s1: "processLine now i l st = Inr s1" and s2: "forEach_lines now (Suc i) ls s1 = Inr st'"
    by (auto split: sum.splits)
  have "\<not> is_url l" "\<not> is_extinf l" using Cons.prems(1) by simp_all
  from processLine_other[OF this, of now i st] s1 obtain p where "s1 = st\<lparr>currentProps := p\<rparr>"
    by auto
  then have "currentChannel s1 = currentChannel st" "channels s1 = channels st" by simp_all
  moreover have "currentChannel st' = currentChannel s1 \<and> channels st' = channels s1"
    using Cons.IH[OF _ s2] Cons.prems(1) by simp
  ultimately show ?case by simp
qed

lemma forEach_keeps_no_props:
  "\<forall>l\<in>set mid. \<not> is_kodiprop l \<Longrightarrow> currentProps st = [] \<Longrightarrow>
   forEach_lines now i mid st = Inr st' \<Longrightarrow> currentProps st' = []"
proof (induction mid arbitrary: i st)
  case Nil
  then show ?case by simp
next
  case (Cons l ls)
  from Cons.prems(3) obtain s1 where
    s1: "processLine now i l st = Inr s1" and s2: "forEach_lines now (Suc i) ls s1 = Inr st'"
    by (auto split: sum.splits)
  have nk: "\<not> is_kodiprop l" using Cons.prems(1) by simp
  have "currentProps s1 = []"
  proof (cases "is_url l")
    case True
    then show ?thesis using after_url[OF s1] by simp
  next
    case nu: False
    show ?thesis
    proof (cases "is_extinf l")
      case True
      then show ?thesis using s1 Cons.prems(2) by (auto simp: processLine_extinf)
    next
      case False
      from processLine_other[OF nu False, of now i st] s1 nk Cons.prems(2) show ?thesis by auto
    qed
  qed
  then show ?case using Cons.IH[OF _ _ s2] Cons.prems(1) by simp
qed

lemma processDrm_empty: "processDrm [] = Inr None"
  by (simp add: processDrm_def obj_get_def)

lemma unknown_nonempty: "js ''Unknown Channel'' \<noteq> []"
  by (simp add: js_def)

text \<open>
  C4 (as amended). Take a URL line and the lines before it, with only blank, property or
  comment lines between \<open>pre\<close> and the URL line. If \<open>pre\<close> is empty or ends with a URL
  line (no metadata line is pending), the channel is named \<open>Channel N\<close>, with N its
  position in the output counted from 1. If \<open>pre\<close> ends with a metadata line, the channel
  is named by the trimmed text after that line's final comma, and by \<open>Unknown Channel\<close>
  when that text is empty.
\<close>

theorem default_channel_names:
  assumes "parseM3U now content = Inr r"
    and "js_split 0x0A content = pre @ mid @ [u] @ post"
    and "\<forall>l\<in>set mid. \<not> is_extinf l \<and> \<not> is_url l"
    and "is_url u"
  shows "url_count pre < length (res_channels r) \<and>
         (pre = [] \<or> is_url (last pre) \<longrightarrow>
            name (res_channels r ! url_count pre) =
              js ''Channel '' @ string_of_nat (url_count pre + 1)) \<and>
         (pre \<noteq> [] \<and> is_extinf (last pre) \<longrightarrow>
            name (res_channels r ! url_count pre) =
              (if extinf_name (last pre) = [] then js ''Unknown Channel''
               else extinf_name (last pre)))"
proof -
  from parse_state[OF assms(1)] obtain fin where
    fin: "forEach_lines now 0 ((pre @ mid) @ [u] @ post) init_pstate = Inr fin"
    using assms(2) by auto
  from forEach_split[OF fin] obtain st where
    st: "forEach_lines now 0 (pre @ mid) init_pstate = Inr st" by blast
  from forEach_split[OF st] obtain sp where
    sp: "forEach_lines now 0 pre init_pstate = Inr sp"
    and sm: "forEach_lines now (0 + length pre) mid sp = Inr st" by blast
  have keep: "currentChannel st = currentChannel sp" "channels st = channels sp"
    using forEach_keeps_channel[OF assms(3) sm] by simp_all
  have l2: "js_split 0x0A content = (pre @ mid) @ [u] @ post" using assms(2) by simp
  from url_line_channel[OF assms(1) l2 assms(4) st] obtain d where
    ch: "length (channels st) = url_count (pre @ mid)"
      "length (channels st) < length (res_channels r)"
      "res_channels r ! length (channels st) = new_channel now (length (pre @ mid)) (trim u) d st"
    by blast
  have "url_count mid = 0" using assms(3) by (simp add: url_count_def)
  then have k: "length (channels st) = url_count pre" using ch(1) by (simp add: url_count_simps)
  have nm: "name (res_channels r ! url_count pre) =
      or_else (p_name (currentChannel sp)) (js ''Channel '' @ string_of_nat (url_count pre + 1))"
    using ch(3) k keep by (simp add: new_channel_def Let_def)
  have a: "name (res_channels r ! url_count pre) =
      js ''Channel '' @ string_of_nat (url_count pre + 1)" if "pre = [] \<or> is_url (last pre)"
  proof -
    have "currentChannel sp = no_channel"
    proof (cases "pre = []")
      case True
      then show ?thesis using sp by (simp add: init_channels)
    next
      case False
      then have "pre = butlast pre @ [last pre]" by simp
      then have "forEach_lines now 0 (butlast pre @ [last pre]) init_pstate = Inr sp"
        using sp by simp
      from forEach_last[OF this] that False show ?thesis using after_url by blast
    qed
    then show ?thesis using nm by (simp add: no_channel_def)
  qed
  have b: "name (res_channels r ! url_count pre) =
      (if extinf_name (last pre) = [] then js ''Unknown Channel'' else extinf_name (last pre))"
    if "pre \<noteq> [] \<and> is_extinf (last pre)"
  proof -
    from that have "pre = butlast pre @ [last pre]" by simp
    then have "forEach_lines now 0 (butlast pre @ [last pre]) init_pstate = Inr sp"
      using sp by simp
    from forEach_last[OF this] that
    have "currentChannel sp = extinf_channel (drop 8 (trim (last pre)))"
      using after_extinf by blast
    then show ?thesis using nm unknown_nonempty
      by (simp add: extinf_channel_def extinf_name_def Let_def)
  qed
  from a b k ch(2) show ?thesis by simp
qed

text \<open>
  C6. Processing a URL line always leaves the pending properties empty. So when two URL
  lines \<open>u1\<close> and \<open>u2\<close> have no property line between them, the channel of \<open>u2\<close> (at
  the position given by the number of URL lines before it) has no DRM configuration, no
  user agent and no referrer, whatever properties preceded \<open>u1\<close>.
\<close>

theorem properties_cleared_after_channel:
  assumes "parseM3U now content = Inr r"
    and "js_split 0x0A content = pre @ [u1] @ mid @ [u2] @ post"
    and "is_url u1" and "is_url u2"
    and "\<forall>l\<in>set mid. \<not> is_kodiprop l"
  shows "url_count (pre @ [u1] @ mid) < length (res_channels r) \<and>
         url (res_channels r ! url_count (pre @ [u1] @ mid)) = trim u2 \<and>
         drm (res_channels r ! url_count (pre @ [u1] @ mid)) = None \<and>
         userAgent (res_channels r ! url_count (pre @ [u1] @ mid)) = None \<and>
         referrer (res_channels r ! url_count (pre @ [u1] @ mid)) = None \<and>
         (\<forall>i l st st'. is_url l \<and> processLine now i l st = Inr st' \<longrightarrow> currentProps st' = [])"
proof -
  from parse_state[OF assms(1)] obtain fin where
    fin: "forEach_lines now 0 ((pre @ [u1] @ mid) @ [u2] @ post) init_pstate = Inr fin"
    using assms(2) by auto
  from forEach_split[OF fin] obtain st where
    st: "forEach_lines now 0 (pre @ [u1] @ mid) init_pstate = Inr st" by blast
  have "forEach_lines now 0 ((pre @ [u1]) @ mid) init_pstate = Inr st" using st by simp
  from forEach_split[OF this] obtain s1 where
    s1: "forEach_lines now 0 (pre @ [u1]) init_pstate = Inr s1"
    and sm: "forEach_lines now (0 + length (pre @ [u1])) mid s1 = Inr st" by blast
  from forEach_last[OF s1] assms(3) have "currentProps s1 = []" using after_url by blast
  from forEach_keeps_no_props[OF assms(5) this sm] have e: "currentProps st = []" .
  have l2: "js_split 0x0A content = (pre @ [u1] @ mid) @ [u2] @ post" using assms(2) by simp
  from url_line_channel[OF assms(1) l2 assms(4) st] e processDrm_empty obtain
    ch: "length (channels st) = url_count (pre @ [u1] @ mid)"
      "length (channels st) < length (res_channels r)"
      "res_channels r ! length (channels st) =
         new_channel now (length (pre @ [u1] @ mid)) (trim u2) None st"
    by auto
  have "\<forall>i l st st'. is_url l \<and> processLine now i l st = Inr st' \<longrightarrow> currentProps st' = []"
    using after_url by blast
  then show ?thesis using ch e by (simp add: new_channel_def Let_def obj_get_def)
qed

subsection \<open>The DRM block\<close>

lemma or_else_falsy: "\<not> truthy x \<Longrightarrow> or_else x [] = []"
  by (cases x) simp_all

lemma or_else_truthy: "truthy x \<Longrightarrow> x = Some (or_else x [])"
  by (cases x) simp_all

lemma header_pair_truthy:
  "header_pair h =
     (if truthy (js_nth (js_split 0x3D h) 0) \<and> truthy (js_nth (js_split 0x3D h) 1)
      then Some (or_else (js_nth (js_split 0x3D h) 0) [], or_else (js_nth (js_split 0x3D h) 1) [])
      else None)"
proof (cases "js_split 0x3D h")
  case Nil
  then show ?thesis by (simp add: header_pair_def)
next
  case (Cons k rest)
  then show ?thesis by (cases rest) (auto simp: header_pair_def)
qed

lemma headers_forEach_Cons:
  "headers_forEach (h # hs) acc =
     (case header_pair h of
        None \<Rightarrow> headers_forEach hs acc
      | Some (k, raw) \<Rightarrow>
          (case decodeURIComponent raw of
             Inl e \<Rightarrow> Inl e
           | Inr v \<Rightarrow> headers_forEach hs (obj_set acc k v)))"
  by (simp add: header_pair_truthy Let_def)

lemma headers_forEach_empty_field: "headers_forEach (js_split 0x26 []) [] = Inr []"
  by (simp add: Let_def)

lemma second_field_pipe:
  "second_field key =
     (if 0x7C \<in> set key
      then takeWhile (\<lambda>c. c \<noteq> 0x7C) (drop 1 (dropWhile (\<lambda>c. c \<noteq> 0x7C) key))
      else [])"
  unfolding second_field_def js_nth_split_1 by simp

lemma processDrm_keys:
  assumes "obj_get props (js ''inputstream.adaptive.license_type'') = Some ty" and "ty \<noteq> []"
    and "obj_get props (js ''inputstream.adaptive.license_key'') = Some key" and "key \<noteq> []"
  shows "processDrm props =
     (case headers_forEach (js_split 0x26 (second_field key)) [] of
        Inl e \<Rightarrow> Inl e
      | Inr hs \<Rightarrow>
          Inr (Some \<lparr>drm_type = ty, licenseUrl = takeWhile (\<lambda>c. c \<noteq> 0x7C) key,
                     headers = Some hs\<rparr>))"
proof (cases "0x7C \<in> set key")
  case False
  then have sf: "second_field key = []" by (simp add: second_field_pipe)
  have tw: "takeWhile (\<lambda>c. c \<noteq> 0x7C) key = key"
    by (rule takeWhile_eq_all_conv[THEN iffD2]) (use False in auto)
  show ?thesis using assms False
    by (simp add: processDrm_def headers_forEach_empty_field sf tw
        del: headers_forEach.simps js_split.simps split: sum.splits)
next
  case True
  show ?thesis
  proof (cases "truthy (js_nth (js_split 0x7C key) 1)")
    case t: True
    then show ?thesis using assms True
      by (simp add: processDrm_def second_field_def hd_js_split Let_def
          del: headers_forEach.simps js_split.simps split: sum.splits)
  next
    case f: False
    then have "second_field key = []" by (simp add: second_field_def or_else_falsy)
    then show ?thesis using assms True f
      by (simp add: processDrm_def hd_js_split Let_def headers_forEach_empty_field
          del: headers_forEach.simps js_split.simps split: sum.splits)
  qed
qed

lemma obj_set_lookup:
  "map_of (obj_set acc k v) k' =
     (if k = js ''__proto__'' then map_of acc k' else if k' = k then Some v else map_of acc k')"
  by (simp add: obj_set_def update_conv')

lemma obj_set_distinct: "distinct (map fst acc) \<Longrightarrow> distinct (map fst (obj_set acc k v))"
  by (simp add: obj_set_def distinct_update)

lemma headers_forEach_distinct:
  "headers_forEach hs acc = Inr out \<Longrightarrow> distinct (map fst acc) \<Longrightarrow> distinct (map fst out)"
proof (induction hs arbitrary: acc)
  case Nil
  then show ?case by simp
next
  case (Cons h hs)
  show ?case
  proof (cases "header_pair h")
    case None
    then show ?thesis using Cons by (simp add: headers_forEach_Cons del: headers_forEach.simps)
  next
    case (Some p)
    obtain k raw where p: "p = (k, raw)" by (cases p)
    from Cons.prems(1) Some p obtain v where
      v: "decodeURIComponent raw = Inr v" "headers_forEach hs (obj_set acc k v) = Inr out"
      by (auto simp: headers_forEach_Cons simp del: headers_forEach.simps split: sum.splits)
    show ?thesis using Cons.IH[OF v(2)] obj_set_distinct[OF Cons.prems(2)] by simp
  qed
qed

lemma headers_forEach_lookup:
  "headers_forEach hs acc = Inr out \<Longrightarrow>
     map_of out k =
       (case map_of (rev (List.map_filter header_pair hs)) k of
          None \<Rightarrow> map_of acc k
        | Some raw \<Rightarrow>
            if k = js ''__proto__'' then map_of acc k
            else (case decodeURIComponent raw of Inr v \<Rightarrow> Some v | Inl e \<Rightarrow> None))"
proof (induction hs arbitrary: acc)
  case Nil
  then show ?case by (simp add: map_filter_simps)
next
  case (Cons h hs)
  show ?case
  proof (cases "header_pair h")
    case None
    then have "headers_forEach hs acc = Inr out"
      using Cons.prems by (simp add: headers_forEach_Cons del: headers_forEach.simps)
    from Cons.IH[OF this] None show ?thesis by (simp add: map_filter_simps)
  next
    case (Some p)
    obtain k' raw' where p: "p = (k', raw')" by (cases p)
    from Cons.prems Some p obtain v' where
      v: "decodeURIComponent raw' = Inr v'" "headers_forEach hs (obj_set acc k' v') = Inr out"
      by (auto simp: headers_forEach_Cons simp del: headers_forEach.simps split: sum.splits)
    have mf: "map_of (rev (List.map_filter header_pair (h # hs))) k =
        (case map_of (rev (List.map_filter header_pair hs)) k of
           Some x \<Rightarrow> Some x
         | None \<Rightarrow> if k = k' then Some raw' else None)"
      using Some p by (simp add: map_filter_simps map_add_def split: option.splits)
    show ?thesis
      unfolding mf Cons.IH[OF v(2)] using v(1)
      by (simp add: obj_set_lookup split: option.splits)
  qed
qed

lemma headers_forEach_exact:
  assumes "headers_forEach (js_split 0x26 field) [] = Inr hs"
  shows "map_of hs k = Some v \<longleftrightarrow>
           k \<noteq> js ''__proto__'' \<and>
           (\<exists>raw. map_of (rev (header_pairs field)) k = Some raw \<and>
                  decodeURIComponent raw = Inr v)"
  using headers_forEach_lookup[OF assms, of k]
  by (auto simp: header_pairs_def split: option.splits sum.splits)

lemma headers_forEach_sources:
  assumes "headers_forEach (js_split 0x26 field) [] = Inr hs" and "(k, v) \<in> set hs"
  shows "\<exists>h raw. h \<in> set (js_split 0x26 field) \<and> header_pair h = Some (k, raw) \<and>
                 decodeURIComponent raw = Inr v"
proof -
  have "distinct (map fst hs)" using headers_forEach_distinct[OF assms(1)] by simp
  then have "map_of hs k = Some v" using assms(2) by simp
  then obtain raw where raw: "map_of (rev (header_pairs field)) k = Some raw"
    "decodeURIComponent raw = Inr v"
    using headers_forEach_exact[OF assms(1)] by blast
  then have "(k, raw) \<in> set (header_pairs field)" using map_of_SomeD by fastforce
  then obtain h where "h \<in> set (js_split 0x26 field)" "header_pair h = Some (k, raw)"
    by (auto simp: header_pairs_def map_filter_def)
  with raw show ?thesis by blast
qed

lemma header_pair_text:
  "header_pair h =
     (if 0x3D \<in> set h \<and> takeWhile (\<lambda>c. c \<noteq> 0x3D) h \<noteq> [] \<and>
         takeWhile (\<lambda>c. c \<noteq> 0x3D) (drop 1 (dropWhile (\<lambda>c. c \<noteq> 0x3D) h)) \<noteq> []
      then Some (takeWhile (\<lambda>c. c \<noteq> 0x3D) h,
                 takeWhile (\<lambda>c. c \<noteq> 0x3D) (drop 1 (dropWhile (\<lambda>c. c \<noteq> 0x3D) h)))
      else None)"
  unfolding header_pair_truthy js_nth_split_0 js_nth_split_1 by simp

lemma processDrm_headers_present:
  "processDrm props = Inr (Some d) \<Longrightarrow> headers d \<noteq> None"
  by (auto simp: processDrm_def Let_def split: if_splits sum.splits)

lemma processLine_headers_present:
  assumes "processLine now i l st = Inr st'"
    and "\<forall>c\<in>set (channels st). \<forall>d. drm c = Some d \<longrightarrow> headers d \<noteq> None"
  shows "\<forall>c\<in>set (channels st'). \<forall>d. drm c = Some d \<longrightarrow> headers d \<noteq> None"
proof (cases "is_url l")
  case True
  then obtain d where d: "processDrm (currentProps st) = Inr d"
    and c: "channels st' = channels st @ [new_channel now i (trim l) d st]"
    using assms(1) by (auto simp: processLine_url split: sum.splits)
  have "drm (new_channel now i (trim l) d st) = d" by (simp add: new_channel_def Let_def)
  then show ?thesis using assms(2) c processDrm_headers_present[of "currentProps st"] d by auto
next
  case nu: False
  show ?thesis
  proof (cases "is_extinf l")
    case True
    then have "channels st' = channels st" using assms(1) by (auto simp: processLine_extinf)
    then show ?thesis using assms(2) by simp
  next
    case False
    from processLine_other[OF nu False, of now i st] assms(1)
    have "channels st' = channels st" by auto
    then show ?thesis using assms(2) by simp
  qed
qed

lemma forEach_headers_present:
  "forEach_lines now i ls st = Inr st' \<Longrightarrow>
   \<forall>c\<in>set (channels st). \<forall>d. drm c = Some d \<longrightarrow> headers d \<noteq> None \<Longrightarrow>
   \<forall>c\<in>set (channels st'). \<forall>d. drm c = Some d \<longrightarrow> headers d \<noteq> None"
proof (induction ls arbitrary: i st)
  case Nil
  then show ?case by simp
next
  case (Cons l ls)
  from Cons.prems(1) obtain s1 where
    s1: "processLine now i l st = Inr s1" and s2: "forEach_lines now (Suc i) ls s1 = Inr st'"
    by (auto split: sum.splits)
  show ?case by (rule Cons.IH[OF s2 processLine_headers_present[OF s1 Cons.prems(2)]])
qed

lemma url_line_drm:
  assumes "parseM3U now content = Inr r"
    and "js_split 0x0A content = pre @ [u] @ post" and "is_url u"
    and "forEach_lines now 0 pre init_pstate = Inr st"
    and "obj_get (currentProps st) (js ''inputstream.adaptive.license_type'') = Some ty"
    and "ty \<noteq> []"
    and "obj_get (currentProps st) (js ''inputstream.adaptive.license_key'') = Some key"
    and "key \<noteq> []"
  shows "\<exists>hs. url_count pre < length (res_channels r) \<and>
           drm (res_channels r ! url_count pre) =
             Some \<lparr>drm_type = ty, licenseUrl = takeWhile (\<lambda>c. c \<noteq> 0x7C) key,
                   headers = Some hs\<rparr> \<and>
           headers_forEach (js_split 0x26 (second_field key)) [] = Inr hs"
proof -
  from url_line_channel[OF assms(1-4)] obtain d where
    d: "processDrm (currentProps st) = Inr d" "length (channels st) = url_count pre"
      "length (channels st) < length (res_channels r)"
      "res_channels r ! length (channels st) = new_channel now (length pre) (trim u) d st"
    by blast
  from d(1) processDrm_keys[OF assms(5-8)] obtain hs where
    hs: "headers_forEach (js_split 0x26 (second_field key)) [] = Inr hs"
      "d = Some \<lparr>drm_type = ty, licenseUrl = takeWhile (\<lambda>c. c \<noteq> 0x7C) key, headers = Some hs\<rparr>"
    by (auto split: sum.splits)
  have "drm (res_channels r ! url_count pre) = d" using d by (simp add: new_channel_def Let_def)
  with hs d show ?thesis by auto
qed

text \<open>
  C5 (as amended). When the properties pending at a URL line hold a non-empty license
  type and a non-empty license key, the channel of that line has a DRM configuration with
  that type, with the text of the key before its first pipe as license URL, and with the
  headers read from the second pipe-separated field of the key (the text between the
  first pipe and the next one, empty when there is no pipe): that field is split on \<open>&\<close>,
  each piece on \<open>=\<close>, and every stored value is the URL-decoding of the value of one of
  the pieces. Fields after a second pipe are not read.
\<close>

theorem license_key_fields:
  assumes "parseM3U now content = Inr r"
    and "js_split 0x0A content = pre @ [u] @ post" and "is_url u"
    and "forEach_lines now 0 pre init_pstate = Inr st"
    and "obj_get (currentProps st) (js ''inputstream.adaptive.license_type'') = Some ty"
    and "ty \<noteq> []"
    and "obj_get (currentProps st) (js ''inputstream.adaptive.license_key'') = Some key"
    and "key \<noteq> []"
  shows "\<exists>hs. url_count pre < length (res_channels r) \<and>
           drm (res_channels r ! url_count pre) =
             Some \<lparr>drm_type = ty, licenseUrl = takeWhile (\<lambda>c. c \<noteq> 0x7C) key,
                   headers = Some hs\<rparr> \<and>
           headers_forEach (js_split 0x26 (second_field key)) [] = Inr hs \<and>
           second_field key =
             (if 0x7C \<in> set key
              then takeWhile (\<lambda>c. c \<noteq> 0x7C) (drop 1 (dropWhile (\<lambda>c. c \<noteq> 0x7C) key))
              else []) \<and>
           (\<forall>k v. (k, v) \<in> set hs \<longrightarrow>
              (\<exists>h raw. h \<in> set (js_split 0x26 (second_field key)) \<and>
                       header_pair h = Some (k, raw) \<and> decodeURIComponent raw = Inr v))"
proof -
  from url_line_drm[OF assms] obtain hs where
    hs: "url_count pre < length (res_channels r)"
      "drm (res_channels r ! url_count pre) =
         Some \<lparr>drm_type = ty, licenseUrl = takeWhile (\<lambda>c. c \<noteq> 0x7C) key, headers = Some hs\<rparr>"
      "headers_forEach (js_split 0x26 (second_field key)) [] = Inr hs"
    by blast
  have "\<forall>k v. (k, v) \<in> set hs \<longrightarrow>
      (\<exists>h raw. h \<in> set (js_split 0x26 (second_field key)) \<and>
               header_pair h = Some (k, raw) \<and> decodeURIComponent raw = Inr v)"
    using headers_forEach_sources[OF hs(3)] by blast
  with hs second_field_pipe[of key] show ?thesis by blast
qed

text \<open>
  C10 (as amended). Under the same conditions the headers mapping is present, and for
  every name \<open>k\<close> other than \<open>__proto__\<close>, \<open>k\<close> is bound to \<open>v\<close> in it exactly when \<open>v\<close>
  is the URL-decoding of the raw value of the last piece of the second pipe-separated
  field whose name is \<open>k\<close> and whose name and value around the first \<open>=\<close> are both
  non-empty. Every DRM configuration of a parsed channel has a headers mapping. A piece
  has a name and a value when it contains \<open>=\<close>, the text before the first \<open>=\<close> is not
  empty and the text between the first \<open>=\<close> and the next one is not empty; that text is
  the raw value.
\<close>

theorem header_pairs_kept:
  assumes "parseM3U now content = Inr r"
    and "js_split 0x0A content = pre @ [u] @ post" and "is_url u"
    and "forEach_lines now 0 pre init_pstate = Inr st"
    and "obj_get (currentProps st) (js ''inputstream.adaptive.license_type'') = Some ty"
    and "ty \<noteq> []"
    and "obj_get (currentProps st) (js ''inputstream.adaptive.license_key'') = Some key"
    and "key \<noteq> []"
  shows "(\<exists>d hs. drm (res_channels r ! url_count pre) = Some d \<and> headers d = Some hs \<and>
           (\<forall>k v. k \<noteq> js ''__proto__'' \<longrightarrow>
              (map_of hs k = Some v \<longleftrightarrow>
                 (\<exists>raw. map_of (rev (header_pairs (second_field key))) k = Some raw \<and>
                        decodeURIComponent raw = Inr v)))) \<and>
         (\<forall>c d. c \<in> set (res_channels r) \<and> drm c = Some d \<longrightarrow> headers d \<noteq> None) \<and>
         (\<forall>h. header_pair h =
            (if 0x3D \<in> set h \<and> takeWhile (\<lambda>c. c \<noteq> 0x3D) h \<noteq> [] \<and>
                takeWhile (\<lambda>c. c \<noteq> 0x3D) (drop 1 (dropWhile (\<lambda>c. c \<noteq> 0x3D) h)) \<noteq> []
             then Some (takeWhile (\<lambda>c. c \<noteq> 0x3D) h,
                        takeWhile (\<lambda>c. c \<noteq> 0x3D) (drop 1 (dropWhile (\<lambda>c. c \<noteq> 0x3D) h)))
             else None))"
proof -
  from url_line_drm[OF assms] obtain hs where
    hs: "drm (res_channels r ! url_count pre) =
         Some \<lparr>drm_type = ty, licenseUrl = takeWhile (\<lambda>c. c \<noteq> 0x7C) key, headers = Some hs\<rparr>"
      "headers_forEach (js_split 0x26 (second_field key)) [] = Inr hs"
    by blast
  have e: "\<forall>k v. k \<noteq> js ''__proto__'' \<longrightarrow>
              (map_of hs k = Some v \<longleftrightarrow>
                 (\<exists>raw. map_of (rev (header_pairs (second_field key))) k = Some raw \<and>
                        decodeURIComponent raw = Inr v))"
    using headers_forEach_exact[OF hs(2)] by blast
  have a: "\<exists>d hs. drm (res_channels r ! url_count pre) = Some d \<and> headers d = Some hs \<and>
           (\<forall>k v. k \<noteq> js ''__proto__'' \<longrightarrow>
              (map_of hs k = Some v \<longleftrightarrow>
                 (\<exists>raw. map_of (rev (header_pairs (second_field key))) k = Some raw \<and>
                        decodeURIComponent raw = Inr v)))"
    apply (rule exI[of _ "\<lparr>drm_type = ty, licenseUrl = takeWhile (\<lambda>c. c \<noteq> 0x7C) key,
                           headers = Some hs\<rparr>"])
    apply (rule exI[of _ hs])
    using hs(1) e by simp
  from parse_state[OF assms(1)] obtain fin where
    fin: "forEach_lines now 0 (js_split 0x0A content) init_pstate = Inr fin"
      "res_channels r = channels fin" by blast
  have b: "\<forall>c d. c \<in> set (res_channels r) \<and> drm c = Some d \<longrightarrow> headers d \<noteq> None"
    using forEach_headers_present[OF fin(1)] fin(2) by (auto simp: init_channels)
  from a b header_pair_text show ?thesis by blast
qed

subsection \<open>The examples, evaluated\<close>

lemma unnamed_parse: "parseM3U fixed_clock unnamed_playlist = Inr unnamed_result"
  by (simp add: unnamed_playlist_def unnamed_result_def parse_eval)

lemma drm_parse: "parseM3U fixed_clock drm_playlist = Inr drm_result"
  by (simp add: drm_playlist_def drm_result_def parse_eval)

lemma drm_split:
  "js_split 0x0A drm_playlist =
     drm_lines @ [js ''http://a/1.mpd''] @ [js ''#EXTINF:-1,Two'', js ''http://a/2.mpd'']"
  by (simp add: drm_playlist_def drm_lines_def js_def)

lemma drm_prefix: "forEach_lines fixed_clock 0 drm_lines init_pstate = Inr drm_pending"
  by (simp add: drm_lines_def drm_pending_def parse_eval)

lemma demo_urls:
  "is_url (js ''http://a/1.mpd'')" "is_url (js ''http://a/2.mpd'')"
  "is_url (js ''http://a/1'')" "is_url (js ''http://a/2'')"
  "is_extinf (js ''#EXTINF:-1,'')" "extinf_name (js ''#EXTINF:-1,'') = []"
  by (simp_all add: is_url_def is_extinf_def extinf_name_def js_def trim_def isWhiteSpace_def
      startsWith_def)

lemma demo_other_lines:
  "\<forall>l\<in>set [js ''#KODIPROP:http-user-agent=UA'']. \<not> is_extinf l \<and> \<not> is_url l"
  "\<forall>l\<in>set [js ''# note'']. \<not> is_extinf l \<and> \<not> is_url l"
  "\<forall>l\<in>set [js ''#EXTINF:-1,Two'']. \<not> is_kodiprop l"
  "\<not> is_url (js ''#EXTINF:-1,'')" "\<not> is_url (js ''#KODIPROP:http-user-agent=UA'')"
  "\<not> is_url (js ''#EXTINF:-1,Two'')"
  by (simp_all add: is_url_def is_extinf_def is_kodiprop_def js_def trim_def isWhiteSpace_def
      startsWith_def)

lemma drm_lines_kinds: "url_count drm_lines = 0"
  by (simp add: url_count_def drm_lines_def is_url_def js_def trim_def isWhiteSpace_def
      startsWith_def)

lemma drm_pending_props:
  "obj_get (currentProps drm_pending) (js ''inputstream.adaptive.license_type'') =
     Some (js ''com.widevine.alpha'')"
  "obj_get (currentProps drm_pending) (js ''inputstream.adaptive.license_key'') =
     Some (js ''https://lic.example/x|Header1=aaa&Header2=b%20b'')"
  "js ''com.widevine.alpha'' \<noteq> []"
  "js ''https://lic.example/x|Header1=aaa&Header2=b%20b'' \<noteq> []"
  by (simp_all add: drm_pending_def obj_get_def js_def)

theorem categories_from_channels_and_metadata_witness:
  "parseM3U fixed_clock unnamed_playlist = Inr unnamed_result \<and>
   map cat_name (res_categories unnamed_result) =
     js ''All Channels'' #
     sorted_list_of_set
       (channel_groups (res_channels unnamed_result) \<union>
        extinf_groups (js_split 0x0A unnamed_playlist)) \<and>
   map cat_name (res_categories unnamed_result) = [js ''All Channels'', js ''Uncategorized''] \<and>
   map cat_id (res_categories unnamed_result) = [js ''all'', js ''cat-0'']"
proof -
  have "map cat_name (res_categories unnamed_result) = [js ''All Channels'', js ''Uncategorized'']"
    "map cat_id (res_categories unnamed_result) = [js ''all'', js ''cat-0'']"
    by (simp_all add: unnamed_result_def)
  then show ?thesis
    using unnamed_parse categories_from_channels_and_metadata[OF unnamed_parse] by blast
qed

text \<open>
  C4 as stated fails: a metadata line with nothing after its final comma names the
  channel \<open>Unknown Channel\<close>, not \<open>Channel 1\<close>.
\<close>

theorem default_name_counterexample:
  "parseM3U fixed_clock (js ''#EXTINF:-1,\<newline>http://a/1'') =
     Inr \<lparr>res_channels =
            [\<lparr>ch_id = js ''ch-0-1'', tvgId = None, name = js ''Unknown Channel'', logo = None,
              group = Some (js ''Uncategorized''), url = js ''http://a/1'',
              drm = None, userAgent = None, referrer = None\<rparr>],
          res_categories =
            [\<lparr>cat_id = js ''all'', cat_name = js ''All Channels''\<rparr>,
             \<lparr>cat_id = js ''cat-0'', cat_name = js ''Uncategorized''\<rparr>]\<rparr> \<and>
   js ''Unknown Channel'' \<noteq> js ''Channel 1''"
  by (simp add: parse_eval)

theorem default_channel_names_witness:
  "parseM3U fixed_clock unnamed_playlist = Inr unnamed_result \<and>
   js_split 0x0A unnamed_playlist =
     [js ''#EXTINF:-1,''] @ [js ''#KODIPROP:http-user-agent=UA''] @ [js ''http://a/1''] @
     [js ''# note'', js ''http://a/2''] \<and>
   is_extinf (last [js ''#EXTINF:-1,'']) \<and> is_url (js ''http://a/1'') \<and>
   url_count [js ''#EXTINF:-1,''] = 0 \<and>
   name (res_channels unnamed_result ! 0) = js ''Unknown Channel'' \<and>
   js_split 0x0A unnamed_playlist =
     [js ''#EXTINF:-1,'', js ''#KODIPROP:http-user-agent=UA'', js ''http://a/1''] @
     [js ''# note''] @ [js ''http://a/2''] @ [] \<and>
   is_url (last [js ''#EXTINF:-1,'', js ''#KODIPROP:http-user-agent=UA'', js ''http://a/1'']) \<and>
   is_url (js ''http://a/2'') \<and>
   url_count [js ''#EXTINF:-1,'', js ''#KODIPROP:http-user-agent=UA'', js ''http://a/1''] = 1 \<and>
   name (res_channels unnamed_result ! 1) = js ''Channel 2''"
proof -
  have s1: "js_split 0x0A unnamed_playlist =
      [js ''#EXTINF:-1,''] @ [js ''#KODIPROP:http-user-agent=UA''] @ [js ''http://a/1''] @
      [js ''# note'', js ''http://a/2'']"
    by (simp add: unnamed_playlist_def js_def)
  have s2: "js_split 0x0A unnamed_playlist =
      [js ''#EXTINF:-1,'', js ''#KODIPROP:http-user-agent=UA'', js ''http://a/1''] @
      [js ''# note''] @ [js ''http://a/2''] @ []"
    by (simp add: unnamed_playlist_def js_def)
  have u0: "url_count [js ''#EXTINF:-1,''] = 0"
    using demo_other_lines(4) by (simp add: url_count_def)
  have u1: "url_count [js ''#EXTINF:-1,'', js ''#KODIPROP:http-user-agent=UA'', js ''http://a/1''] = 1"
    using demo_urls(3) demo_other_lines(4,5) by (simp add: url_count_def)
  have c2: "js ''Channel '' @ string_of_nat (1 + 1) = js ''Channel 2''"
    by (simp add: js_def string_of_nat.simps)
  show ?thesis
    using unnamed_parse s1 s2 demo_urls u0 u1 c2
      default_channel_names[OF unnamed_parse s1 demo_other_lines(1) demo_urls(3)]
      default_channel_names[OF unnamed_parse s2 demo_other_lines(2) demo_urls(4)]
    by simp
qed

theorem properties_cleared_after_channel_witness:
  "parseM3U fixed_clock drm_playlist = Inr drm_result \<and>
   js_split 0x0A drm_playlist =
     drm_lines @ [js ''http://a/1.mpd''] @ [js ''#EXTINF:-1,Two''] @ [js ''http://a/2.mpd''] @ [] \<and>
   is_url (js ''http://a/1.mpd'') \<and> is_url (js ''http://a/2.mpd'') \<and>
   url_count (drm_lines @ [js ''http://a/1.mpd''] @ [js ''#EXTINF:-1,Two'']) = 1 \<and>
   drm (res_channels drm_result ! 0) \<noteq> None \<and>
   url (res_channels drm_result ! 1) = js ''http://a/2.mpd'' \<and>
   drm (res_channels drm_result ! 1) = None"
proof -
  have s: "js_split 0x0A drm_playlist =
      drm_lines @ [js ''http://a/1.mpd''] @ [js ''#EXTINF:-1,Two''] @ [js ''http://a/2.mpd''] @ []"
    using drm_split by simp
  have u: "url_count (drm_lines @ [js ''http://a/1.mpd''] @ [js ''#EXTINF:-1,Two'']) = 1"
    using drm_lines_kinds demo_urls(1) demo_other_lines(6) by (simp add: url_count_simps)
  have d0: "drm (res_channels drm_result ! 0) \<noteq> None" by (simp add: drm_result_def)
  have t: "trim (js ''http://a/2.mpd'') = js ''http://a/2.mpd''"
    by (simp add: js_def trim_def isWhiteSpace_def)
  show ?thesis
    using drm_parse s demo_urls(1,2) u d0 t
      properties_cleared_after_channel[OF drm_parse s demo_urls(1) demo_urls(2)
        demo_other_lines(3)]
    by simp
qed

theorem license_key_fields_witness:
  "parseM3U fixed_clock drm_playlist = Inr drm_result \<and>
   js_split 0x0A drm_playlist =
     drm_lines @ [js ''http://a/1.mpd''] @ [js ''#EXTINF:-1,Two'', js ''http://a/2.mpd''] \<and>
   is_url (js ''http://a/1.mpd'') \<and>
   forEach_lines fixed_clock 0 drm_lines init_pstate = Inr drm_pending \<and>
   obj_get (currentProps drm_pending) (js ''inputstream.adaptive.license_type'') =
     Some (js ''com.widevine.alpha'') \<and>
   obj_get (currentProps drm_pending) (js ''inputstream.adaptive.license_key'') =
     Some (js ''https://lic.example/x|Header1=aaa&Header2=b%20b'') \<and>
   url_count drm_lines = 0 \<and>
   drm (res_channels drm_result ! 0) =
     Some \<lparr>drm_type = js ''com.widevine.alpha'',
           licenseUrl = takeWhile (\<lambda>c. c \<noteq> 0x7C) (js ''https://lic.example/x|Header1=aaa&Header2=b%20b''),
           headers = Some [(js ''Header1'', js ''aaa''), (js ''Header2'', js ''b b'')]\<rparr> \<and>
   takeWhile (\<lambda>c. c \<noteq> 0x7C) (js ''https://lic.example/x|Header1=aaa&Header2=b%20b'') =
     js ''https://lic.example/x'' \<and>
   second_field (js ''https://lic.example/x|Header1=aaa&Header2=b%20b'') =
     js ''Header1=aaa&Header2=b%20b''"
proof -
  have t: "takeWhile (\<lambda>c. c \<noteq> 0x7C) (js ''https://lic.example/x|Header1=aaa&Header2=b%20b'') =
      js ''https://lic.example/x''"
    by (simp add: js_def)
  have f: "second_field (js ''https://lic.example/x|Header1=aaa&Header2=b%20b'') =
      js ''Header1=aaa&Header2=b%20b''"
    by (simp add: second_field_def js_def)
  have d: "drm (res_channels drm_result ! 0) =
     Some \<lparr>drm_type = js ''com.widevine.alpha'', licenseUrl = js ''https://lic.example/x'',
           headers = Some [(js ''Header1'', js ''aaa''), (js ''Header2'', js ''b b'')]\<rparr>"
    by (simp add: drm_result_def)
  show ?thesis
    using drm_parse drm_split demo_urls(1) drm_prefix drm_pending_props drm_lines_kinds t f d
      license_key_fields[OF drm_parse drm_split demo_urls(1) drm_prefix
        drm_pending_props(1) drm_pending_props(3) drm_pending_props(2) drm_pending_props(4)]
    by simp
qed

text \<open>
  C5 as stated fails: with the key \<open>u|A=1|B=2\<close> the headers are read from \<open>A=1\<close> and
  are \<open>{A: 1}\<close>; read from everything after the first pipe they would be \<open>{A: 1|B}\<close>.
\<close>

theorem first_pipe_counterexample:
  "parseM3U fixed_clock two_pipe_playlist =
     Inr \<lparr>res_channels =
            [\<lparr>ch_id = js ''ch-0-2'', tvgId = None, name = js ''Channel 1'', logo = None,
              group = Some (js ''Uncategorized''), url = js ''http://a/1.mpd'',
              drm = Some \<lparr>drm_type = js ''w'', licenseUrl = js ''u'',
                          headers = Some [(js ''A'', js ''1'')]\<rparr>,
              userAgent = None, referrer = None\<rparr>],
          res_categories =
            [\<lparr>cat_id = js ''all'', cat_name = js ''All Channels''\<rparr>,
             \<lparr>cat_id = js ''cat-0'', cat_name = js ''Uncategorized''\<rparr>]\<rparr> \<and>
   after_first_pipe (js ''u|A=1|B=2'') = js ''A=1|B=2'' \<and>
   headers_forEach (js_split 0x26 (after_first_pipe (js ''u|A=1|B=2''))) [] =
     Inr [(js ''A'', js ''1|B'')]"
  by (simp add: two_pipe_playlist_def after_first_pipe_def parse_eval)

theorem header_pairs_kept_witness:
  "parseM3U fixed_clock drm_playlist = Inr drm_result \<and>
   js_split 0x0A drm_playlist =
     drm_lines @ [js ''http://a/1.mpd''] @ [js ''#EXTINF:-1,Two'', js ''http://a/2.mpd''] \<and>
   is_url (js ''http://a/1.mpd'') \<and>
   forEach_lines fixed_clock 0 drm_lines init_pstate = Inr drm_pending \<and>
   obj_get (currentProps drm_pending) (js ''inputstream.adaptive.license_type'') =
     Some (js ''com.widevine.alpha'') \<and>
   obj_get (currentProps drm_pending) (js ''inputstream.adaptive.license_key'') =
     Some (js ''https://lic.example/x|Header1=aaa&Header2=b%20b'') \<and>
   url_count drm_lines = 0 \<and>
   map_option headers (drm (res_channels drm_result ! 0)) =
     Some (Some [(js ''Header1'', js ''aaa''), (js ''Header2'', js ''b b'')]) \<and>
   header_pairs (second_field (js ''https://lic.example/x|Header1=aaa&Header2=b%20b'')) =
     [(js ''Header1'', js ''aaa''), (js ''Header2'', js ''b%20b'')] \<and>
   header_pairs (js ''A=1=2&B=&=C&D&E=5'') = [(js ''A'', js ''1''), (js ''E'', js ''5'')]"
proof -
  have p: "header_pairs (second_field (js ''https://lic.example/x|Header1=aaa&Header2=b%20b'')) =
     [(js ''Header1'', js ''aaa''), (js ''Header2'', js ''b%20b'')]"
    by (simp add: header_pairs_def header_pair_def second_field_def js_def map_filter_simps)
  have q: "header_pairs (js ''A=1=2&B=&=C&D&E=5'') = [(js ''A'', js ''1''), (js ''E'', js ''5'')]"
    by (simp add: header_pairs_def header_pair_def js_def map_filter_simps)
  have d: "map_option headers (drm (res_channels drm_result ! 0)) =
     Some (Some [(js ''Header1'', js ''aaa''), (js ''Header2'', js ''b b'')])"
    by (simp add: drm_result_def)
  show ?thesis
    using drm_parse drm_split demo_urls(1) drm_prefix drm_pending_props drm_lines_kinds p q d
      header_pairs_kept[OF drm_parse drm_split demo_urls(1) drm_prefix
        drm_pending_props(1) drm_pending_props(3) drm_pending_props(2) drm_pending_props(4)]
    by simp
qed

text \<open>
  C10 as stated fails: with the key \<open>u|A=1|B=2&C=3\<close> the text after the pipe holds the
  pairs \<open>A\<close> and \<open>C\<close>, and the headers hold \<open>A\<close> only, read from the second field \<open>A=1\<close>.
\<close>

theorem dropped_pairs_counterexample:
  "parseM3U fixed_clock three_field_playlist =
     Inr \<lparr>res_channels =
            [\<lparr>ch_id = js ''ch-0-2'', tvgId = None, name = js ''Channel 1'', logo = None,
              group = Some (js ''Uncategorized''), url = js ''http://a/1.mpd'',
              drm = Some \<lparr>drm_type = js ''w'', licenseUrl = js ''u'',
                          headers = Some [(js ''A'', js ''1'')]\<rparr>,
              userAgent = None, referrer = None\<rparr>],
          res_categories =
            [\<lparr>cat_id = js ''all'', cat_name = js ''All Channels''\<rparr>,
             \<lparr>cat_id = js ''cat-0'', cat_name = js ''Uncategorized''\<rparr>]\<rparr> \<and>
   header_pairs (after_first_pipe (js ''u|A=1|B=2&C=3'')) =
     [(js ''A'', js ''1|B''), (js ''C'', js ''3'')]"
proof -
  have a: "parseM3U fixed_clock three_field_playlist =
     Inr \<lparr>res_channels =
            [\<lparr>ch_id = js ''ch-0-2'', tvgId = None, name = js ''Channel 1'', logo = None,
              group = Some (js ''Uncategorized''), url = js ''http://a/1.mpd'',
              drm = Some \<lparr>drm_type = js ''w'', licenseUrl = js ''u'',
                          headers = Some [(js ''A'', js ''1'')]\<rparr>,
              userAgent = None, referrer = None\<rparr>],
          res_categories =
            [\<lparr>cat_id = js ''all'', cat_name = js ''All Channels''\<rparr>,
             \<lparr>cat_id = js ''cat-0'', cat_name = js ''Uncategorized''\<rparr>]\<rparr>"
    by (simp add: three_field_playlist_def parse_eval)
  have b: "header_pairs (after_first_pipe (js ''u|A=1|B=2&C=3'')) =
     [(js ''A'', js ''1|B''), (js ''C'', js ''3'')]"
    by (simp add: after_first_pipe_def header_pairs_def header_pair_def js_def map_filter_simps)
  from a b show ?thesis by blast
qed

end
